theory Spec2Isabelle
  imports Main "HOL-Library.Word"
begin

section \<open>JavaScript strings\<close>

text \<open>
  A JavaScript string is a finite sequence of UTF-16 code units; \<open>length\<close>,
  \<open>substring\<close>, \<open>startsWith\<close>, \<open>repeat\<close> and a regular expression without
  the \<open>u\<close> flag all count and compare code units.  Implementation limits on the
  length of a string are not part of the model.
\<close>

type_synonym jschar = "16 word"

type_synonym jsstring = "jschar list"

text \<open>An ASCII literal of the source, as code units.\<close>

definition js :: "string \<Rightarrow> jsstring" where
  "js s = map (\<lambda>c. of_char c) s"

text \<open>\<open>s.substring(start, end)\<close>: both indices are clamped to \<open>[0, s.length]\<close>
  and swapped when the first exceeds the second.\<close>

definition substring :: "jsstring \<Rightarrow> int \<Rightarrow> int \<Rightarrow> jsstring" where
  "substring s start end =
     (let len = int (length s);
          finalStart = min (max start 0) len;
          finalEnd = min (max end 0) len;
          from = min finalStart finalEnd;
          to = max finalStart finalEnd
      in take (nat (to - from)) (drop (nat from) s))"

text \<open>\<open>s.startsWith(p)\<close> at position 0.\<close>

definition startsWith :: "jsstring \<Rightarrow> jsstring \<Rightarrow> bool" where
  "startsWith s p = (take (length p) s = p)"

text \<open>\<open>s.repeat(n)\<close> for an integral \<open>n \<ge> 0\<close> (the only counts the program
  passes: each is a constant or guarded by \<open>Math.max(0, _)\<close>).\<close>

definition repeat :: "jsstring \<Rightarrow> int \<Rightarrow> jsstring" where
  "repeat s n = concat (replicate (nat n) s)"

section \<open>Data of the signing-and-verification core\<close>

text \<open>
  The repository documents the service that signs, verifies and redeems receipts
  (signing guide) and holds none of its code.  Its data and operations are modelled
  from the specification; every such definition says so.  Timestamps are milliseconds
  since the epoch; keys and signatures are their encoded text.
\<close>

type_synonym timestamp = int

text \<open>Modelled from the spec: the \<open>status\<close> of a SigningKey (data model), whose
  declaration is not in the repository.\<close>

datatype key_status = active | rotated | revoked

text \<open>Modelled from the spec: the signing mode of the configuration surface.\<close>

datatype signing_mode = required | optional | disabled

text \<open>Modelled from the spec: SigningKey (data model); the store of keys is not in the
  repository.\<close>

record SigningKey =
  keyId :: jsstring
  algorithm :: jsstring
  publicKey :: jsstring
  privateKey :: jsstring
  status :: key_status
  createdAt :: timestamp

text \<open>Modelled from the spec: the request of \<open>verify\<close> (Verifier), whose declaration is
  not in the repository.\<close>

record VerifyRequest =
  receiptId :: jsstring
  scope :: jsstring
  scopeRef :: jsstring
  scopeSha :: jsstring
  redeem :: bool

text \<open>Modelled from the spec: PermissionReceipt of the data model, as the external
  store keeps it; the type is not in the repository.  \<open>decision\<close> holds the decision's
  name.\<close>

record Receipt =
  receiptId :: jsstring
  decision :: jsstring
  scope :: jsstring
  scopeRef :: jsstring
  scopeSha :: jsstring
  issuedAt :: timestamp
  expiresAt :: timestamp
  redeemedAt :: "timestamp option"
  signature :: "jsstring option"
  sigAlg :: "jsstring option"
  keyId :: "jsstring option"



section \<open>Data of the demo\<close>

text \<open>
  The fields of the SDK's \<open>ExecuteResult\<close> and \<open>PermissionReceipt\<close> that the demo
  reads.  The SDK declares \<open>status\<close> as one of three strings; the demo compares it
  as a string, and so does the model.
\<close>

record PermissionReceipt =
  receiptId :: jsstring
  reasonCodes :: "jsstring list option"

record ExecuteResult =
  status :: jsstring
  receipt :: PermissionReceipt

datatype phase = REQUESTING | RESULT | ERROR | UNEXPECTED

text \<open>\<open>FormatOptions\<close>; an optional field is an \<open>option\<close>.  The field \<open>input\<close> is
  never read by \<open>formatResult\<close> and is left out.\<close>

record FormatOptions =
  scenarioName :: jsstring
  tool :: jsstring
  operation :: jsstring
  phase :: phase
  result :: "ExecuteResult option"
  expectedStatus :: "jsstring option"
  statusMatch :: "bool option"
  errorCode :: "jsstring option"
  errorMessage :: "jsstring option"
  message :: "jsstring option"

text \<open>The result of the simulated CI gate (trust-tests.ts).\<close>

record gate_result =
  blocked :: bool
  message :: jsstring

text \<open>The configuration that \<open>validateEnv\<close> returns (index.ts).\<close>

record config =
  endpoint :: jsstring
  apiKey :: jsstring
  tenantId :: jsstring
  agentId :: jsstring

text \<open>
  The constants of a scenario module (scenarios/spend.ts, prod-write.ts, message.ts):
  its exported \<open>SCENARIO_NAME\<close>, \<open>TOOL\<close>, \<open>OPERATION\<close> and \<open>EXPECTED_STATUS\<close>, the
  \<open>tool\<close>, \<open>operation\<close> and \<open>reversibility\<close> of its request to the SDK, and the name
  of the mock tool that its \<open>run\<close> guards.
\<close>

record scenario =
  SCENARIO_NAME :: jsstring
  TOOL :: jsstring
  OPERATION :: jsstring
  EXPECTED_STATUS :: jsstring
  request_tool :: jsstring
  request_operation :: jsstring
  reversibility :: jsstring
  mock_tool :: jsstring

text \<open>Truthiness of a \<open>string | undefined\<close>: \<open>undefined\<close> and \<open>''\<close> are falsy.\<close>

definition truthy :: "jsstring option \<Rightarrow> bool" where
  "truthy v = (case v of None \<Rightarrow> False | Some s \<Rightarrow> s \<noteq> [])"

text \<open>\<open>v || d\<close> for a \<open>string | undefined\<close> on the left.\<close>

definition or_default :: "jsstring option \<Rightarrow> jsstring \<Rightarrow> jsstring" where
  "or_default v d = (case v of None \<Rightarrow> d | Some s \<Rightarrow> if s = [] then d else s)"

section \<open>output.ts\<close>

definition BOX_WIDTH :: int where
  "BOX_WIDTH = 65"

definition ESC :: jschar where
  "ESC = 0x1B"

datatype color = reset | red | green | yellow | blue | magenta | cyan | white | bold | dim

fun COLORS :: "color \<Rightarrow> jsstring" where
  "COLORS reset = ESC # js ''[0m''"
| "COLORS red = ESC # js ''[31m''"
| "COLORS green = ESC # js ''[32m''"
| "COLORS yellow = ESC # js ''[33m''"
| "COLORS blue = ESC # js ''[34m''"
| "COLORS magenta = ESC # js ''[35m''"
| "COLORS cyan = ESC # js ''[36m''"
| "COLORS white = ESC # js ''[37m''"
| "COLORS bold = ESC # js ''[1m''"
| "COLORS dim = ESC # js ''[2m''"

definition colorize :: "jsstring \<Rightarrow> color \<Rightarrow> jsstring" where
  "colorize text c = COLORS c @ text @ COLORS reset"

subsection \<open>The regular expression \<open>/\<bsol>x1b\<bsol>[[0-9;]*m/g\<close>\<close>

text \<open>A code unit of the class \<open>[0-9;]\<close>.\<close>

definition sgr_param :: "jschar \<Rightarrow> bool" where
  "sgr_param c = ((0x30 \<le> c \<and> c \<le> 0x39) \<or> c = 0x3B)"

text \<open>
  A match of the expression at the head of the string: ESC, \<open>[\<close>, the longest run of
  \<open>[0-9;]\<close>, then \<open>m\<close>.  Backtracking into a shorter run never helps, because the
  unit after a shorter run is itself in \<open>[0-9;]\<close> and so is not \<open>m\<close>.  The result is
  what follows the match.
\<close>

definition sgr_match :: "jsstring \<Rightarrow> jsstring option" where
  "sgr_match s =
     (case s of
        e # b # rest \<Rightarrow>
          if e = ESC \<and> b = 0x5B then
            (case dropWhile sgr_param rest of
               m # rest' \<Rightarrow> if m = 0x6D then Some rest' else None
             | [] \<Rightarrow> None)
          else None
      | _ \<Rightarrow> None)"

lemma sgr_match_shorter: "sgr_match s = Some r \<Longrightarrow> length r < length s"
proof -
  assume m: "sgr_match s = Some r"
  then obtain e b rest where s: "s = e # b # rest"
    by (cases s rule: list.exhaust [case_product list.exhaust, of _ "tl s"])
       (auto simp: sgr_match_def split: list.splits)
  with m obtain c where "dropWhile sgr_param rest = c # r"
    by (auto simp: sgr_match_def split: list.splits if_splits)
  then have "length r < length (dropWhile sgr_param rest)" by simp
  also have "\<dots> \<le> length rest" by (rule length_dropWhile_le)
  finally show ?thesis using s by simp
qed

text \<open>\<open>text.replace(/\<bsol>x1b\<bsol>[[0-9;]*m/g, '')\<close>: the string is scanned from the left;
  a match is dropped and the scan goes on after it, a unit that starts no match is
  kept.\<close>

function stripAnsi :: "jsstring \<Rightarrow> jsstring" where
  "stripAnsi [] = []"
| "stripAnsi (c # cs) =
     (case sgr_match (c # cs) of
        Some rest \<Rightarrow> stripAnsi rest
      | None \<Rightarrow> c # stripAnsi cs)"
  by pat_completeness auto
termination
  by (relation "measure length") (auto dest: sgr_match_shorter)

definition padRight :: "jsstring \<Rightarrow> int \<Rightarrow> jsstring" where
  "padRight text width =
     (let visibleLength = int (length (stripAnsi text));
          padding = max 0 (width - visibleLength)
      in text @ repeat (js '' '') padding)"

definition truncate :: "jsstring \<Rightarrow> int \<Rightarrow> jsstring" where
  "truncate text maxLength =
     (if int (length text) \<le> maxLength then text
      else substring text 0 (maxLength - 3) @ js ''...'')"

definition statusColor :: "jsstring \<Rightarrow> jsstring" where
  "statusColor st =
     (if st = js ''APPROVED'' then colorize st green
      else if st = js ''DENIED'' then colorize st red
      else if st = js ''REQUIRES_APPROVAL'' then colorize st yellow
      else if st = js ''ERROR'' then colorize st red
      else colorize st white)"

subsection \<open>formatResult\<close>

text \<open>\<open>lines.join(sep)\<close>.\<close>

fun join :: "jsstring list \<Rightarrow> jsstring \<Rightarrow> jsstring" where
  "join [] sep = []"
| "join [x] sep = x"
| "join (x # y # ys) sep = x @ sep @ join (y # ys) sep"

text \<open>The box-drawing characters and marks, each one code unit.\<close>

definition box_h :: jsstring where "box_h = [0x2500]"
definition box_v :: jsstring where "box_v = [0x2502]"
definition box_tl :: jsstring where "box_tl = [0x250C]"
definition box_tr :: jsstring where "box_tr = [0x2510]"
definition box_ml :: jsstring where "box_ml = [0x251C]"
definition box_mr :: jsstring where "box_mr = [0x2524]"
definition box_bl :: jsstring where "box_bl = [0x2514]"
definition box_br :: jsstring where "box_br = [0x2518]"
definition check_mark :: jsstring where "check_mark = [0x2713]"
definition cross_mark :: jsstring where "cross_mark = [0x2717]"
definition warning_mark :: jsstring where "warning_mark = [0x26A0]"

text \<open>The recurring lines of the box: a padded row and the three rules.\<close>

definition row :: "jsstring \<Rightarrow> jsstring" where
  "row text = box_v @ padRight text (BOX_WIDTH - 2) @ box_v"

definition top_border :: jsstring where
  "top_border = box_tl @ repeat box_h (BOX_WIDTH - 2) @ box_tr"

definition divider :: jsstring where
  "divider = box_ml @ repeat box_h (BOX_WIDTH - 2) @ box_mr"

definition bottom_border :: jsstring where
  "bottom_border = box_bl @ repeat box_h (BOX_WIDTH - 2) @ box_br"

definition formatResult :: "FormatOptions \<Rightarrow> jsstring" where
  "formatResult opts =
     (let innerWidth = BOX_WIDTH - 4;
          lines =
            [top_border,
             row (js '' SCENARIO: '' @ scenarioName opts),
             divider,
             row (js '' Tool:        '' @ tool opts),
             row (js '' Operation:   '' @ operation opts)] @
            (if phase opts = REQUESTING then
               [divider,
                row (js '' '' @ colorize (js ''Requesting authorization...'') cyan)]
             else if phase opts = RESULT \<and> result opts \<noteq> None then
               (let res = the (result opts); rc = receipt res in
                [row (js '' Decision:    '' @ statusColor (status res)),
                 row (js '' Receipt ID:  '' @ truncate (receiptId rc) 40)] @
                (case reasonCodes rc of
                   Some codes \<Rightarrow>
                     if codes \<noteq> [] then [row (js '' Reason(s):   '' @ join codes (js '', ''))]
                     else []
                 | None \<Rightarrow> []) @
                [divider] @
                (case statusMatch opts of
                   Some m \<Rightarrow>
                     (let icon = (if m then colorize check_mark green
                                  else colorize cross_mark red);
                          action =
                            (if status res = js ''APPROVED'' then
                               js ''Action authorized by Permission Protocol''
                             else if status res = js ''DENIED'' then
                               js ''Action blocked by Permission Protocol''
                             else js ''Action requires human approval'')
                      in [row (js '' '' @ icon @ js '' '' @ action)])
                 | None \<Rightarrow> []))
             else if phase opts = ERROR then
               [row (js '' '' @ colorize (js ''ERROR'') red @ js '': '' @
                     or_default (errorCode opts) (js ''UNKNOWN''))] @
               (if truthy (errorMessage opts) then
                  [row (js ''   '' @ truncate (the (errorMessage opts)) (innerWidth - 4))]
                else []) @
               [divider,
                row (js '' '' @ colorize cross_mark red @ js '' '' @
                     or_default (FormatOptions.message opts) (js ''Operation failed''))]
             else if phase opts = UNEXPECTED then
               [row (js '' '' @ colorize warning_mark yellow @ js '' '' @
                     or_default (FormatOptions.message opts) (js ''Unexpected result''))]
             else []) @
            [bottom_border]
      in join lines [0x0A])"

section \<open>The decision scenarios: spend.ts, prod-write.ts, message.ts\<close>

definition spend :: scenario where
  "spend =
     \<lparr>SCENARIO_NAME = js ''Spending Money'', TOOL = js ''billing.charge'',
      OPERATION = js ''charge_customer'', EXPECTED_STATUS = js ''DENIED'',
      request_tool = js ''billing'', request_operation = js ''charge_customer'',
      reversibility = js ''IRREVERSIBLE'', mock_tool = js ''chargeCustomer''\<rparr>"

definition prod_write :: scenario where
  "prod_write =
     \<lparr>SCENARIO_NAME = js ''Writing to Production'', TOOL = js ''db.write'',
      OPERATION = js ''upsert_record'', EXPECTED_STATUS = js ''REQUIRES_APPROVAL'',
      request_tool = js ''db'', request_operation = js ''upsert_record'',
      reversibility = js ''PARTIALLY_REVERSIBLE'', mock_tool = js ''writeRecord''\<rparr>"

definition message_customers :: scenario where
  "message_customers =
     \<lparr>SCENARIO_NAME = js ''Messaging Customers'', TOOL = js ''messaging.send'',
      OPERATION = js ''send_campaign_message'', EXPECTED_STATUS = js ''REQUIRES_APPROVAL'',
      request_tool = js ''messaging'', request_operation = js ''send_campaign_message'',
      reversibility = js ''IRREVERSIBLE'', mock_tool = js ''sendCampaignMessage''\<rparr>"

text \<open>
  The request handed to \<open>PermissionRouter.execute\<close>: \<open>tenantId\<close>, \<open>agentId\<close>, \<open>tool\<close>,
  \<open>operation\<close>, \<open>reversibility\<close>.  Its \<open>input\<close> and \<open>metadata\<close> are the module's constant
  objects, which \<open>run\<close> only passes on.
\<close>

datatype execute_request = ExecuteRequest jsstring jsstring jsstring jsstring jsstring

text \<open>
  What \<open>run\<close> does, in order: a line on the console, the call of the SDK, the call of
  the mock tool.
\<close>

datatype event = ConsoleLog jsstring | Execute execute_request | Invoke jsstring

fun tool_calls :: "event list \<Rightarrow> jsstring list" where
  "tool_calls [] = []"
| "tool_calls (Invoke name # es) = name # tool_calls es"
| "tool_calls (e # es) = tool_calls es"

definition requesting_box :: "scenario \<Rightarrow> jsstring" where
  "requesting_box sc =
     formatResult
       \<lparr>scenarioName = SCENARIO_NAME sc, tool = TOOL sc, operation = OPERATION sc,
        phase = REQUESTING, result = None, expectedStatus = None, statusMatch = None,
        errorCode = None, errorMessage = None, message = None\<rparr>"

definition result_box :: "scenario \<Rightarrow> ExecuteResult \<Rightarrow> bool \<Rightarrow> jsstring" where
  "result_box sc res match =
     formatResult
       \<lparr>scenarioName = SCENARIO_NAME sc, tool = TOOL sc, operation = OPERATION sc,
        phase = RESULT, result = Some res, expectedStatus = Some (EXPECTED_STATUS sc),
        statusMatch = Some match,
        errorCode = None, errorMessage = None, message = None\<rparr>"

text \<open>
  \<open>run(tenantId, agentId)\<close> of a scenario module.  The SDK is outside the repository:
  \<open>execute\<close> is what its \<open>PermissionRouter.execute\<close> answers to a request, a thrown
  error (\<open>Inl\<close>) or a result.  The body of the mock tool is a parameter too: the lines
  it prints, then the error it throws or the \<open>JSON.stringify\<close> of what it returns.
  The value is the trace of \<open>run\<close> and the error its promise rejects with, if any.
\<close>

definition scenario_request :: "scenario \<Rightarrow> jsstring \<Rightarrow> jsstring \<Rightarrow> execute_request" where
  "scenario_request sc tenant agent =
     ExecuteRequest tenant agent (request_tool sc) (request_operation sc) (reversibility sc)"

definition run ::
  "scenario \<Rightarrow> (execute_request \<Rightarrow> 'e + ExecuteResult) \<Rightarrow> jsstring list \<times> ('e + jsstring) \<Rightarrow>
   jsstring \<Rightarrow> jsstring \<Rightarrow> event list \<times> 'e option" where
  "run sc execute toolBody tenant agent =
     (let request = scenario_request sc tenant agent;
          before = [ConsoleLog (requesting_box sc), Execute request]
      in case execute request of
           Inl err \<Rightarrow> (before, Some err)
         | Inr res \<Rightarrow>
             (let match = (status res = EXPECTED_STATUS sc);
                  shown = before @ [ConsoleLog (result_box sc res match)]
              in if status res = js ''APPROVED'' then
                   (case toolBody of
                      (printed, Inl err) \<Rightarrow>
                        (shown @ [Invoke (mock_tool sc)] @ map ConsoleLog printed, Some err)
                    | (printed, Inr toolResult) \<Rightarrow>
                        (shown @ [Invoke (mock_tool sc)] @ map ConsoleLog printed @
                           [ConsoleLog (js ''  Tool executed: '' @ toolResult)],
                         None))
                 else (shown, None)))"

section \<open>scenarios/trust-tests.ts: the simulated CI gate\<close>

text \<open>The double quote of the template literals.\<close>

definition dquote :: jsstring where
  "dquote = [0x22]"

text \<open>The parameter \<open>receiptId\<close> is written \<open>rid\<close>; \<open>!receiptId\<close> on a string
  holds exactly for the empty string.\<close>

definition simulateCIGateVerification :: "jsstring \<Rightarrow> gate_result" where
  "simulateCIGateVerification rid =
     (if rid = [] \<or> rid = js ''undefined'' \<or> rid = js ''null'' then
        \<lparr>blocked = True,
         message = js ''No receipt ID provided. No receipt = No deploy.''\<rparr>
      else if \<not> startsWith rid (js ''rec_'') \<and> \<not> startsWith rid (js ''apr_'') then
        \<lparr>blocked = True,
         message = js ''Invalid receipt ID format: '' @ dquote @ rid @ dquote @
                   js ''. Expected rec_ or apr_ prefix.''\<rparr>
      else
        \<lparr>blocked = True,
         message = js ''Receipt not found: '' @ dquote @ rid @ dquote @
                   js ''. The receipt may have expired or the ID may be incorrect.''\<rparr>)"

section \<open>index.ts: the environment\<close>

text \<open>\<open>process.env\<close>: a variable is unset (\<open>undefined\<close>) or holds a string, which may
  be empty.\<close>

type_synonym env = "jsstring \<rightharpoonup> jsstring"

text \<open>A function that may end the process: \<open>Exit lines code\<close> is \<open>process.exit(code)\<close>
  after the \<open>console.error\<close> lines, \<open>Return v\<close> is a normal return.\<close>

datatype 'a outcome = Exit "jsstring list" int | Return 'a

definition validateEnv :: "env \<Rightarrow> config outcome" where
  "validateEnv env =
     (let endpoint = env (js ''PP_ENDPOINT'');
          apiKey = env (js ''PP_API_KEY'');
          tenantId = env (js ''PP_TENANT_ID'');
          agentId = or_default (env (js ''PP_AGENT_ID'')) (js ''demo-agent'')
      in if \<not> truthy endpoint then
           Exit [js ''Error: PP_ENDPOINT environment variable is required'',
                 js ''Set it to your Permission Protocol API endpoint''] 1
         else if \<not> truthy apiKey then
           Exit [js ''Error: PP_API_KEY environment variable is required'',
                 js ''Get an API key from your Permission Protocol instance''] 1
         else if \<not> truthy tenantId then
           Exit [js ''Error: PP_TENANT_ID environment variable is required'',
                 js ''This is your company/tenant ID in Permission Protocol''] 1
         else
           Return \<lparr>endpoint = the endpoint, apiKey = the apiKey,
                   tenantId = the tenantId, agentId = agentId\<rparr>)"

section \<open>The documented interface: receipt-standard.md and the signing guide\<close>



section \<open>KeyStore\<close>

text \<open>Modelled from the spec: the keys of one environment, in the order in which they
  were inserted; the KeyStore's code is not in the repository.\<close>

type_synonym KeyStore = "SigningKey list"

text \<open>Modelled from the spec: the failures of the KeyStore operations (\<open>NoActiveKey\<close>,
  \<open>NotFound\<close>, a colliding key id).\<close>

datatype keystore_error = NoActiveKey | NotFound | KeyIdCollision


text \<open>Modelled from the spec: \<open>getKey(keyId)\<close>, a key or \<open>NotFound\<close>; the KeyStore's code
  is not in the repository.\<close>

definition getKey :: "KeyStore \<Rightarrow> jsstring \<Rightarrow> keystore_error + SigningKey" where
  "getKey ks kid =
     (case find (\<lambda>k. SigningKey.keyId k = kid) ks of
        None \<Rightarrow> Inl NotFound
      | Some k \<Rightarrow> Inr k)"

text \<open>Modelled from the spec: \<open>rotate(newKey)\<close> inserts \<open>newKey\<close> as active and demotes the
  prior active key (if any) to \<open>rotated\<close> in the same step; it fails if the key id
  collides with an existing one.  The KeyStore's code is not in the repository.\<close>

definition rotate :: "KeyStore \<Rightarrow> SigningKey \<Rightarrow> keystore_error + KeyStore" where
  "rotate ks newKey =
     (if SigningKey.keyId newKey \<in> set (map SigningKey.keyId ks) then Inl KeyIdCollision
      else Inr (map (\<lambda>k. if SigningKey.status k = active
                           then k\<lparr>SigningKey.status := rotated\<rparr> else k) ks @
                [newKey\<lparr>SigningKey.status := active\<rparr>]))"

text \<open>Modelled from the spec: \<open>revoke(keyId)\<close> sets the status to \<open>revoked\<close> regardless of
  the prior status; it fails if the key does not exist.  The KeyStore's code is not in
  the repository.\<close>

definition revoke :: "KeyStore \<Rightarrow> jsstring \<Rightarrow> keystore_error + KeyStore" where
  "revoke ks kid =
     (if kid \<notin> set (map SigningKey.keyId ks) then Inl NotFound
      else Inr (map (\<lambda>k. if SigningKey.keyId k = kid
                           then k\<lparr>SigningKey.status := revoked\<rparr> else k) ks))"

text \<open>A sequence of calls to the two mutating operations; a call that fails leaves the
  KeyStore as it was.\<close>

datatype keystore_op = Rotate SigningKey | Revoke jsstring

fun apply_op :: "KeyStore \<Rightarrow> keystore_op \<Rightarrow> KeyStore" where
  "apply_op ks (Rotate newKey) = (case rotate ks newKey of Inl e \<Rightarrow> ks | Inr ks' \<Rightarrow> ks')"
| "apply_op ks (Revoke kid) = (case revoke ks kid of Inl e \<Rightarrow> ks | Inr ks' \<Rightarrow> ks')"

definition apply_ops :: "KeyStore \<Rightarrow> keystore_op list \<Rightarrow> KeyStore" where
  "apply_ops ks ops = foldl apply_op ks ops"

text \<open>The number of keys with \<open>status = active\<close>, and the place of a status in the life
  cycle active, rotated, revoked.\<close>

definition active_count :: "KeyStore \<Rightarrow> nat" where
  "active_count ks = length (filter (\<lambda>k. SigningKey.status k = active) ks)"

fun rank :: "key_status \<Rightarrow> nat" where
  "rank active = 0"
| "rank rotated = 1"
| "rank revoked = 2"

text \<open>One operation keeps every key in its place and never moves a status back.\<close>

definition advances :: "KeyStore \<Rightarrow> KeyStore \<Rightarrow> bool" where
  "advances ks ks' =
     (length ks \<le> length ks' \<and>
      (\<forall>i < length ks.
         SigningKey.keyId (ks' ! i) = SigningKey.keyId (ks ! i) \<and>
         rank (SigningKey.status (ks ! i)) \<le> rank (SigningKey.status (ks' ! i))))"

text \<open>Two keys, for examples.\<close>

definition example_key_1 :: SigningKey where
  "example_key_1 =
     \<lparr>SigningKey.keyId = js ''k1'', algorithm = js ''ed25519'', publicKey = js ''pk1'',
      privateKey = js ''sk1'', SigningKey.status = active, createdAt = 0\<rparr>"

definition example_key_2 :: SigningKey where
  "example_key_2 =
     \<lparr>SigningKey.keyId = js ''k2'', algorithm = js ''ed25519'', publicKey = js ''pk2'',
      privateKey = js ''sk2'', SigningKey.status = active, createdAt = 1\<rparr>"

section \<open>Signer and receipt creation\<close>




section \<open>RedemptionLedger\<close>

text \<open>Modelled from the spec: the external receipt store, which is not in the
  repository, as the core reads it: a receipt for each id it holds.\<close>

type_synonym ReceiptStore = "jsstring \<rightharpoonup> Receipt"

text \<open>Modelled from the spec: the two answers of \<open>tryRedeem\<close>.\<close>

datatype redeem_result = Ok | AlreadyRedeemed

text \<open>
  Modelled from the spec: \<open>tryRedeem(receiptId, now)\<close>, one indivisible conditional
  update of the store: it sets \<open>redeemedAt = now\<close> only if the current \<open>redeemedAt\<close> is
  null.  The ledger's code is not in the repository.  For an id the store does not
  hold the update changes nothing, and the answer is the one that is not \<open>Ok\<close>.
\<close>

definition tryRedeem ::
  "ReceiptStore \<Rightarrow> jsstring \<Rightarrow> timestamp \<Rightarrow> redeem_result \<times> ReceiptStore" where
  "tryRedeem store rid now =
     (case store rid of
        Some r \<Rightarrow>
          if Receipt.redeemedAt r = None
          then (Ok, store(rid \<mapsto> r\<lparr>Receipt.redeemedAt := Some now\<rparr>))
          else (AlreadyRedeemed, store)
      | None \<Rightarrow> (AlreadyRedeemed, store))"

section \<open>Verifier\<close>

text \<open>The codes of a failed verification (signing guide, Error Codes), and their
  names on the wire.\<close>

datatype verify_code =
  PP_NO_RECEIPT | PP_EXPIRED | PP_REDEEMED | PP_SCOPE_MISMATCH | PP_UNSIGNED_RECEIPT
| PP_INVALID_SIGNATURE

fun code_name :: "verify_code \<Rightarrow> jsstring" where
  "code_name PP_NO_RECEIPT = js ''PP_NO_RECEIPT''"
| "code_name PP_EXPIRED = js ''PP_EXPIRED''"
| "code_name PP_REDEEMED = js ''PP_REDEEMED''"
| "code_name PP_SCOPE_MISMATCH = js ''PP_SCOPE_MISMATCH''"
| "code_name PP_UNSIGNED_RECEIPT = js ''PP_UNSIGNED_RECEIPT''"
| "code_name PP_INVALID_SIGNATURE = js ''PP_INVALID_SIGNATURE''"

text \<open>Modelled from the spec: the result of the missing \<open>verify\<close>: \<open>{valid: true, receipt}\<close>,
  \<open>{valid: false, code}\<close>, or the configuration error with which a verify request is
  rejected while signing is disabled (sections 4.3 and 7 (c)): a hard error, not one of
  the codes.\<close>

datatype verify_result = Valid Receipt | Invalid verify_code | ConfigurationError

text \<open>Modelled from the spec: the public view of a receipt leaves out the raw
  signature and keeps the algorithm and the key id.\<close>

definition public_view :: "Receipt \<Rightarrow> Receipt" where
  "public_view r = r\<lparr>Receipt.signature := None\<rparr>"

text \<open>
  The Verifier's code is not in the repository.  Its checks 2 to 6 are functions of the
  loaded receipt, each with its code; \<open>None\<close> is a pass.
\<close>

text \<open>Modelled from the spec: check 2 of the missing \<open>verify\<close>, \<open>now > expiresAt\<close>.\<close>

definition check_expired :: "timestamp \<Rightarrow> Receipt \<Rightarrow> verify_code option" where
  "check_expired now r = (if now > Receipt.expiresAt r then Some PP_EXPIRED else None)"

text \<open>Modelled from the spec: check 3 of the missing \<open>verify\<close>, \<open>redeemedAt != null\<close>.\<close>

definition check_redeemed :: "Receipt \<Rightarrow> verify_code option" where
  "check_redeemed r = (if Receipt.redeemedAt r \<noteq> None then Some PP_REDEEMED else None)"

text \<open>Modelled from the spec: check 4 of the missing \<open>verify\<close>: scope, scopeRef and
  scopeSha of the request must equal the receipt's, code unit by code unit.\<close>

definition check_scope :: "VerifyRequest \<Rightarrow> Receipt \<Rightarrow> verify_code option" where
  "check_scope req r =
     (if (VerifyRequest.scope req, VerifyRequest.scopeRef req, VerifyRequest.scopeSha req) =
         (Receipt.scope r, Receipt.scopeRef r, Receipt.scopeSha r)
      then None else Some PP_SCOPE_MISMATCH)"

text \<open>Modelled from the spec: check 5 of the missing \<open>verify\<close>: signing mode
  \<open>required\<close> and no signature.\<close>

definition check_signed :: "signing_mode \<Rightarrow> Receipt \<Rightarrow> verify_code option" where
  "check_signed mode r =
     (if mode = required \<and> Receipt.signature r = None then Some PP_UNSIGNED_RECEIPT
      else None)"

text \<open>Modelled from the spec: check 6 of the missing \<open>verify\<close>: a signature whose
  key is missing or revoked, or that does not verify, is invalid.  The Ed25519 check
  over the recomputed canonical digest is the parameter \<open>sig_ok\<close>: public key, receipt,
  signature.\<close>

definition check_signature ::
  "KeyStore \<Rightarrow> (jsstring \<Rightarrow> Receipt \<Rightarrow> jsstring \<Rightarrow> bool) \<Rightarrow> Receipt \<Rightarrow> verify_code option" where
  "check_signature ks sig_ok r =
     (case Receipt.signature r of
        None \<Rightarrow> None
      | Some sg \<Rightarrow>
          (case Receipt.keyId r of
             None \<Rightarrow> Some PP_INVALID_SIGNATURE
           | Some kid \<Rightarrow>
               (case getKey ks kid of
                  Inl e \<Rightarrow> Some PP_INVALID_SIGNATURE
                | Inr k \<Rightarrow>
                    if SigningKey.status k = revoked then Some PP_INVALID_SIGNATURE
                    else if sig_ok (SigningKey.publicKey k) r sg then None
                    else Some PP_INVALID_SIGNATURE)))"

text \<open>Modelled from the spec: checks in their order, stopping at the first that
  fails (the Verifier's code is missing).\<close>

fun first_failure :: "('a \<Rightarrow> verify_code option) list \<Rightarrow> 'a \<Rightarrow> verify_code option" where
  "first_failure [] x = None"
| "first_failure (c # cs) x =
     (case c x of Some code \<Rightarrow> Some code | None \<Rightarrow> first_failure cs x)"

text \<open>Modelled from the spec: the signing mode's rule for the verification endpoint,
  then steps 1 to 6 of the missing \<open>verify\<close>.  While signing is \<open>disabled\<close> every verify
  request is rejected with the configuration error, whatever the receipt.  Otherwise
  the receipt is loaded by its id, then checked; the answer is the first failure's code
  or the receipt.\<close>

definition verify_checks ::
  "signing_mode \<Rightarrow> KeyStore \<Rightarrow> (jsstring \<Rightarrow> Receipt \<Rightarrow> jsstring \<Rightarrow> bool) \<Rightarrow> timestamp \<Rightarrow>
   ReceiptStore \<Rightarrow> VerifyRequest \<Rightarrow> verify_result + Receipt" where
  "verify_checks mode ks sig_ok now store req =
     (if mode = disabled then Inl ConfigurationError
      else
        (case store (VerifyRequest.receiptId req) of
           None \<Rightarrow> Inl (Invalid PP_NO_RECEIPT)
         | Some r \<Rightarrow>
             (case first_failure
                     [check_expired now, check_redeemed, check_scope req, check_signed mode,
                      check_signature ks sig_ok] r of
                Some code \<Rightarrow> Inl (Invalid code)
              | None \<Rightarrow> Inr r)))"

text \<open>Modelled from the spec: step 7 of \<open>verify\<close> and its result: with \<open>redeem = true\<close>
  the ledger's atomic redeem, whose loss of a race is reported as \<open>PP_REDEEMED\<close>.\<close>

definition verify_finish ::
  "timestamp \<Rightarrow> ReceiptStore \<Rightarrow> VerifyRequest \<Rightarrow> Receipt \<Rightarrow> verify_result \<times> ReceiptStore" where
  "verify_finish now store req r =
     (if redeem req then
        (case tryRedeem store (VerifyRequest.receiptId req) now of
           (Ok, store') \<Rightarrow>
             (Valid (public_view (r\<lparr>Receipt.redeemedAt := Some now\<rparr>)), store')
         | (AlreadyRedeemed, store') \<Rightarrow> (Invalid PP_REDEEMED, store'))
      else (Valid (public_view r), store))"

text \<open>Modelled from the spec: the missing \<open>verify(request)\<close> run without interference.\<close>

definition verify ::
  "signing_mode \<Rightarrow> KeyStore \<Rightarrow> (jsstring \<Rightarrow> Receipt \<Rightarrow> jsstring \<Rightarrow> bool) \<Rightarrow> timestamp \<Rightarrow>
   ReceiptStore \<Rightarrow> VerifyRequest \<Rightarrow> verify_result \<times> ReceiptStore" where
  "verify mode ks sig_ok now store req =
     (case verify_checks mode ks sig_ok now store req of
        Inl failure \<Rightarrow> (failure, store)
      | Inr r \<Rightarrow> verify_finish now store req r)"

section \<open>Concurrent callers\<close>

text \<open>
  The service that runs the callers is not in the repository.  By the specification's
  concurrency and resource model, callers run in parallel and share nothing but the
  store, whose conditional write is atomic per receipt.  A call to \<open>tryRedeem\<close> is one
  indivisible step.  A call to \<open>verify\<close> is two: it loads the receipt and checks it, and
  later, on the store as it then is, it redeems and answers.  An execution of
  concurrent callers is an interleaving of their steps; the schedule names, step by
  step, the caller that moves and the time it reads.
\<close>

text \<open>Modelled from the spec: a call to one of the two operations that redeem, of the
  missing service.\<close>

datatype call = RedeemCall jsstring | VerifyCall VerifyRequest

text \<open>Modelled from the spec: what such a call of the missing service answers.\<close>

datatype answer = Redeemed redeem_result | Verified verify_result

text \<open>Modelled from the spec: how far a call of the missing service has come: not
  started, past the checks of \<open>verify\<close> with the receipt it loaded, or returned.\<close>

datatype progress = Waiting | Checked Receipt | Returned answer

type_synonym caller = "call \<times> progress"

type_synonym system = "ReceiptStore \<times> caller list"

text \<open>Modelled from the spec: the next step of one caller of the missing service, on
  the store as it is at that moment.  A caller that has returned stays as it is.\<close>

fun caller_step ::
  "signing_mode \<Rightarrow> KeyStore \<Rightarrow> (jsstring \<Rightarrow> Receipt \<Rightarrow> jsstring \<Rightarrow> bool) \<Rightarrow> timestamp \<Rightarrow>
   ReceiptStore \<Rightarrow> caller \<Rightarrow> caller \<times> ReceiptStore" where
  "caller_step mode ks sig_ok now store (RedeemCall rid, Waiting) =
     (case tryRedeem store rid now of
        (res, store') \<Rightarrow> ((RedeemCall rid, Returned (Redeemed res)), store'))"
| "caller_step mode ks sig_ok now store (VerifyCall req, Waiting) =
     (case verify_checks mode ks sig_ok now store req of
        Inl failure \<Rightarrow> ((VerifyCall req, Returned (Verified failure)), store)
      | Inr r \<Rightarrow> ((VerifyCall req, Checked r), store))"
| "caller_step mode ks sig_ok now store (VerifyCall req, Checked r) =
     (case verify_finish now store req r of
        (res, store') \<Rightarrow> ((VerifyCall req, Returned (Verified res)), store'))"
| "caller_step mode ks sig_ok now store c = (c, store)"

text \<open>Modelled from the spec: the missing service's callers and store after a
  schedule: each entry lets the caller of that index take its next step at that time;
  an index beyond the callers moves nobody.\<close>

fun exec ::
  "signing_mode \<Rightarrow> KeyStore \<Rightarrow> (jsstring \<Rightarrow> Receipt \<Rightarrow> jsstring \<Rightarrow> bool) \<Rightarrow>
   (nat \<times> timestamp) list \<Rightarrow> system \<Rightarrow> system" where
  "exec mode ks sig_ok [] sys = sys"
| "exec mode ks sig_ok ((i, now) # sched) (store, cs) =
     (if i < length cs then
        (case caller_step mode ks sig_ok now store (cs ! i) of
           (c', store') \<Rightarrow> exec mode ks sig_ok sched (store', cs[i := c']))
      else exec mode ks sig_ok sched (store, cs))"

text \<open>A caller that has redeemed the receipt \<open>rid\<close>: a \<open>tryRedeem\<close> on it that answered
  \<open>Ok\<close>, or a \<open>verify\<close> of it with \<open>redeem = true\<close> that answered valid.\<close>

fun redeemed_by :: "jsstring \<Rightarrow> caller \<Rightarrow> bool" where
  "redeemed_by rid (RedeemCall r, Returned (Redeemed Ok)) = (r = rid)"
| "redeemed_by rid (VerifyCall req, Returned (Verified (Valid v))) =
     (VerifyRequest.receiptId req = rid \<and> redeem req)"
| "redeemed_by rid c = False"

definition redemptions :: "jsstring \<Rightarrow> caller list \<Rightarrow> nat" where
  "redemptions rid cs = length (filter (redeemed_by rid) cs)"

text \<open>\<open>redeemedAt\<close> of the receipt \<open>rid\<close> in the store; null also when the store holds no
  such receipt.\<close>

definition redeemedAt_of :: "ReceiptStore \<Rightarrow> jsstring \<Rightarrow> timestamp option" where
  "redeemedAt_of store rid =
     (case store rid of None \<Rightarrow> None | Some r \<Rightarrow> Receipt.redeemedAt r)"

text \<open>The callers that have returned a given answer, and whether all have returned.\<close>

definition answered :: "answer \<Rightarrow> caller list \<Rightarrow> nat" where
  "answered a cs = length (filter (\<lambda>c. snd c = Returned a) cs)"

fun returned :: "caller \<Rightarrow> bool" where
  "returned (c, Returned a) = True"
| "returned (c, p) = False"

text \<open>How often a schedule lets the caller of index \<open>i\<close> move.\<close>

definition moves :: "nat \<Rightarrow> (nat \<times> timestamp) list \<Rightarrow> nat" where
  "moves i sched = length (filter (\<lambda>e. fst e = i) sched)"

text \<open>The steps a caller still has to take before it has returned, at most: a
  \<open>tryRedeem\<close> is one step, a \<open>verify\<close> two.\<close>

fun steps_left :: "caller \<Rightarrow> nat" where
  "steps_left (c, Returned a) = 0"
| "steps_left (VerifyCall req, Waiting) = 2"
| "steps_left (c, p) = 1"

text \<open>At most one caller has redeemed \<open>rid\<close>, and if one has, \<open>redeemedAt\<close> is set.\<close>

definition at_most_once :: "jsstring \<Rightarrow> system \<Rightarrow> bool" where
  "at_most_once rid sys =
     (redemptions rid (snd sys) \<le> 1 \<and>
      (redemptions rid (snd sys) = 1 \<longrightarrow> redeemedAt_of (fst sys) rid \<noteq> None))"

text \<open>The callers of one receipt's \<open>tryRedeem\<close>, all of them: while \<open>redeemedAt\<close> is null
  nobody has moved, and once it is set exactly one caller has been answered \<open>Ok\<close>.\<close>

definition redeem_race :: "jsstring \<Rightarrow> system \<Rightarrow> bool" where
  "redeem_race rid sys =
     (fst sys rid \<noteq> None \<and>
      (\<forall>c\<in>set (snd sys).
         c = (RedeemCall rid, Waiting) \<or> c = (RedeemCall rid, Returned (Redeemed Ok)) \<or>
         c = (RedeemCall rid, Returned (Redeemed AlreadyRedeemed))) \<and>
      (redeemedAt_of (fst sys) rid = None \<longrightarrow>
         (\<forall>c\<in>set (snd sys). c = (RedeemCall rid, Waiting))) \<and>
      (redeemedAt_of (fst sys) rid \<noteq> None \<longrightarrow> answered (Redeemed Ok) (snd sys) = 1))"

text \<open>The receipt and the request of the end-to-end scenario, and a stand-in for the
  signature check, for examples: the signature of a receipt is the public key followed
  by the receipt's id.\<close>

definition example_receipt :: Receipt where
  "example_receipt =
     \<lparr>Receipt.receiptId = js ''rec_1'', decision = js ''APPROVED'',
      Receipt.scope = js ''github:merge'', Receipt.scopeRef = js ''refs/pull/16/merge'',
      Receipt.scopeSha = js ''abc123'', issuedAt = 1000, expiresAt = 3601000,
      redeemedAt = None, signature = Some (js ''pk1rec_1''), sigAlg = Some (js ''ed25519''),
      Receipt.keyId = Some (js ''k1'')\<rparr>"

definition example_request :: VerifyRequest where
  "example_request =
     \<lparr>VerifyRequest.receiptId = js ''rec_1'', VerifyRequest.scope = js ''github:merge'',
      VerifyRequest.scopeRef = js ''refs/pull/16/merge'',
      VerifyRequest.scopeSha = js ''abc123'', redeem = True\<rparr>"

definition example_sig_ok :: "jsstring \<Rightarrow> Receipt \<Rightarrow> jsstring \<Rightarrow> bool" where
  "example_sig_ok pk r sg = (sg = pk @ Receipt.receiptId r)"


section \<open>Properties of output.ts\<close>

lemma repeat_space: "repeat (js '' '') n = replicate (nat n) 0x20"
  by (simp add: repeat_def js_def)

lemma not_param_space: "\<not> sgr_param 0x20"
  by (simp add: sgr_param_def)

lemma sgr_match_Cons2:
  "sgr_match (e # b # rest) =
     (if e = ESC \<and> b = 0x5B then
        (case dropWhile sgr_param rest of
           m # rest' \<Rightarrow> if m = 0x6D then Some rest' else None
         | [] \<Rightarrow> None)
      else None)"
  by (simp add: sgr_match_def)

lemma dropWhile_param_append_spaces:
  "dropWhile sgr_param (rest @ replicate k 0x20) =
     dropWhile sgr_param rest @ replicate k 0x20"
proof (induction rest)
  case Nil
  show ?case by (cases k) (simp_all add: not_param_space)
next
  case (Cons x rest)
  then show ?case by simp
qed

lemma sgr_tail_append_spaces:
  "(case d @ replicate k 0x20 of
      m # rest' \<Rightarrow> if m = 0x6D then Some rest' else None
    | [] \<Rightarrow> None) =
   map_option (\<lambda>r. r @ replicate k 0x20)
     (case d of
        m # rest' \<Rightarrow> if m = (0x6D :: jschar) then Some rest' else None
      | [] \<Rightarrow> None)"
  by (cases d; cases k) simp_all

text \<open>Spaces after a string neither complete nor break a match in it.\<close>

lemma sgr_match_append_spaces:
  "sgr_match (s @ replicate k 0x20) =
     map_option (\<lambda>r. r @ replicate k 0x20) (sgr_match s)"
proof (cases s)
  case Nil
  then show ?thesis
    by (cases k; cases "k - 1") (auto simp: sgr_match_def ESC_def)
next
  case outer: (Cons e s')
  show ?thesis
  proof (cases s')
    case Nil
    with outer show ?thesis by (cases k) (auto simp: sgr_match_def)
  next
    case (Cons b rest)
    with outer have s: "s = e # b # rest" by simp
    show ?thesis
      unfolding s
      by (simp add: sgr_match_Cons2 dropWhile_param_append_spaces sgr_tail_append_spaces)
  qed
qed

lemma stripAnsi_spaces: "stripAnsi (replicate k 0x20) = replicate k 0x20"
proof (induction k)
  case 0
  show ?case by simp
next
  case (Suc k)
  have "sgr_match (0x20 # replicate k 0x20) = None"
    by (cases k) (auto simp: sgr_match_def ESC_def)
  with Suc show ?case by simp
qed

lemma stripAnsi_append_spaces:
  "stripAnsi (s @ replicate k 0x20) = stripAnsi s @ replicate k 0x20"
proof (induction s rule: stripAnsi.induct)
  case 1
  show ?case by (simp add: stripAnsi_spaces)
next
  case (2 c cs)
  show ?case
  proof (cases "sgr_match (c # cs)")
    case None
    then have "sgr_match ((c # cs) @ replicate k 0x20) = None"
      by (simp only: sgr_match_append_spaces) simp
    with None 2 show ?thesis by simp
  next
    case (Some r)
    then have "sgr_match ((c # cs) @ replicate k 0x20) = Some (r @ replicate k 0x20)"
      by (simp only: sgr_match_append_spaces) simp
    with Some 2 show ?thesis by simp
  qed
qed

text \<open>The expression matches exactly the strings ESC, \<open>[\<close>, any number of units of
  \<open>[0-9;]\<close>, \<open>m\<close>: such a string at the head of the text is a match, and a match at
  the head of the text has this form.\<close>

lemma not_param_m: "\<not> sgr_param 0x6D"
  by (simp add: sgr_param_def)

lemma sgr_param_iff: "sgr_param p \<longleftrightarrow> p \<in> {0x30..0x39} \<union> {0x3B}"
  by (auto simp: sgr_param_def)

lemma dropWhile_params:
  "\<forall>p\<in>set ps. sgr_param p \<Longrightarrow> dropWhile sgr_param (ps @ 0x6D # rest) = 0x6D # rest"
  by (induction ps) (simp_all add: not_param_m)

lemma sgr_match_seq:
  "\<forall>p\<in>set ps. sgr_param p \<Longrightarrow> sgr_match (ESC # 0x5B # ps @ 0x6D # rest) = Some rest"
  by (simp add: sgr_match_Cons2 dropWhile_params not_param_m)

lemma sgr_match_SomeD:
  assumes "sgr_match s = Some rest"
  shows "\<exists>ps. s = ESC # 0x5B # ps @ 0x6D # rest \<and> (\<forall>p\<in>set ps. sgr_param p)"
proof -
  from assms obtain e b r0 where s: "s = e # b # r0"
    by (cases s rule: list.exhaust [case_product list.exhaust, of _ "tl s"])
       (auto simp: sgr_match_def split: list.splits)
  with assms have eb: "e = ESC" "b = 0x5B" and d: "dropWhile sgr_param r0 = 0x6D # rest"
    by (auto simp: sgr_match_Cons2 split: list.splits if_splits)
  have "r0 = takeWhile sgr_param r0 @ dropWhile sgr_param r0" by simp
  with d have "r0 = takeWhile sgr_param r0 @ 0x6D # rest" by simp
  moreover have "\<forall>p\<in>set (takeWhile sgr_param r0). sgr_param p"
    by (auto dest: set_takeWhileD)
  ultimately show ?thesis using s eb by blast
qed

lemma sgr_match_not_ESC: "ESC \<noteq> c \<Longrightarrow> sgr_match (c # cs) = None"
  by (cases cs) (auto simp: sgr_match_def)

lemma stripAnsi_keep:
  "ESC \<notin> set pre \<Longrightarrow> stripAnsi (pre @ s) = pre @ stripAnsi s"
  by (induction pre) (simp_all add: sgr_match_not_ESC)

lemma stripAnsi_seq:
  "\<forall>p\<in>set ps. sgr_param p \<Longrightarrow> stripAnsi (ESC # 0x5B # ps @ 0x6D # rest) = stripAnsi rest"
  by (simp add: sgr_match_seq)

lemma stripAnsi_COLORS: "stripAnsi (COLORS c @ s) = stripAnsi s"
  by (cases c) (simp_all add: js_def sgr_match_def sgr_param_def ESC_def)

lemma stripAnsi_colorize: "ESC \<notin> set text \<Longrightarrow> stripAnsi (colorize text c) = text"
  using stripAnsi_COLORS [of reset "[]"]
  by (simp add: colorize_def stripAnsi_COLORS stripAnsi_keep del: COLORS.simps)

text \<open>
  Claim C10.  For every string \<open>text\<close> and every natural number \<open>width\<close>,
  \<open>padRight(text, width)\<close> is \<open>text\<close> followed by spaces only (as many as \<open>width\<close>
  exceeds the visible length of \<open>text\<close>, none when it does not), and the visible
  length of the result is the larger of \<open>width\<close> and the visible length of \<open>text\<close>.
  The visible text is what \<open>stripAnsi\<close> leaves, and \<open>stripAnsi\<close> is the removal of
  the SGR escape sequences: of the empty string it leaves nothing; at a sequence ESC,
  \<open>[\<close>, units of \<open>[0-9;]\<close>, \<open>m\<close> it drops the sequence and goes on after it; a unit
  at which no such sequence starts it keeps.  So a text without ESC is its own visible
  text, it is also the visible text of its coloured form \<open>colorize(text, c)\<close>, and
  \<open>padRight\<close> pads the coloured form by the length of \<open>text\<close>, not by the length of
  the coloured string.
\<close>

theorem padRight_pads_to_visible_width:
  "padRight text (int width) =
     text @ replicate (width - length (stripAnsi text)) 0x20 \<and>
   length (stripAnsi (padRight text (int width))) = max width (length (stripAnsi text)) \<and>
   stripAnsi [] = [] \<and>
   ((\<forall>p\<in>set ps. p \<in> {0x30..0x39} \<union> {0x3B}) \<longrightarrow>
      stripAnsi (0x1B # 0x5B # ps @ 0x6D # rest) = stripAnsi rest) \<and>
   ((\<forall>ps rest. (\<forall>p\<in>set ps. p \<in> {0x30..0x39} \<union> {0x3B}) \<longrightarrow>
        c # cs \<noteq> 0x1B # 0x5B # ps @ 0x6D # rest) \<longrightarrow>
      stripAnsi (c # cs) = c # stripAnsi cs) \<and>
   (0x1B \<notin> set text \<longrightarrow>
      stripAnsi text = text \<and>
      stripAnsi (colorize text col) = text \<and>
      padRight (colorize text col) (int width) =
        colorize text col @ replicate (width - length text) 0x20 \<and>
      length (stripAnsi (padRight (colorize text col) (int width))) = max width (length text))"
proof -
  have 1: "padRight t (int width) = t @ replicate (width - length (stripAnsi t)) 0x20" for t
    by (simp add: padRight_def Let_def repeat_space nat_diff_distrib')
  have 2: "length (stripAnsi (padRight t (int width))) = max width (length (stripAnsi t))" for t
    by (auto simp: 1 stripAnsi_append_spaces)
  have 3: "stripAnsi (0x1B # 0x5B # ps @ 0x6D # rest) = stripAnsi rest"
    if "\<forall>p\<in>set ps. p \<in> {0x30..0x39} \<union> {0x3B}"
    using that stripAnsi_seq [of ps rest] by (simp add: sgr_param_iff ESC_def)
  have 4: "stripAnsi (c # cs) = c # stripAnsi cs"
    if no: "\<forall>ps rest. (\<forall>p\<in>set ps. p \<in> {0x30..0x39} \<union> {0x3B}) \<longrightarrow>
        c # cs \<noteq> 0x1B # 0x5B # ps @ 0x6D # rest"
  proof (cases "sgr_match (c # cs)")
    case None
    then show ?thesis by simp
  next
    case (Some r)
    from sgr_match_SomeD [OF this] no show ?thesis
      by (auto simp: sgr_param_iff ESC_def)
  qed
  have 5: "stripAnsi text = text" "stripAnsi (colorize text col) = text"
    if "0x1B \<notin> set text"
    using that stripAnsi_keep [of "text" "[]"] stripAnsi_colorize [of "text" col]
    by (simp_all add: ESC_def)
  have 6: "padRight (colorize text col) (int width) =
             colorize text col @ replicate (width - length text) 0x20"
          "length (stripAnsi (padRight (colorize text col) (int width))) =
             max width (length text)"
    if "0x1B \<notin> set text"
    using 1 [of "colorize text col"] 2 [of "colorize text col"] 5(2) [OF that]
    by simp_all
  from 1 [of "text"] 2 [of "text"] stripAnsi.simps(1) 3 4 5 6
  show ?thesis by blast
qed

theorem padRight_pads_to_visible_width_witness:
  "0x1B \<notin> set (js ''OK'') \<and>
   colorize (js ''OK'') green = 0x1B # js ''[32mOK'' @ 0x1B # js ''[0m'' \<and>
   stripAnsi (colorize (js ''OK'') green) = js ''OK'' \<and>
   padRight (colorize (js ''OK'') green) 5 = colorize (js ''OK'') green @ replicate 3 0x20 \<and>
   length (stripAnsi (padRight (colorize (js ''OK'') green) 5)) = 5 \<and>
   set (js ''1;31'') \<subseteq> {0x30..0x39} \<union> {0x3B} \<and>
   stripAnsi (0x1B # 0x5B # js ''1;31'' @ 0x6D # js ''x'') = js ''x'' \<and>
   stripAnsi (0x5B # js ''0m'') = 0x5B # js ''0m''"
proof -
  note t = padRight_pads_to_visible_width
    [of "js ''OK''" 5 "js ''1;31''" "js ''x''" "0x5B" "js ''0m''" green]
  have a: "0x1B \<notin> set (js ''OK'')" by (simp add: js_def)
  have p: "\<forall>p\<in>set (js ''1;31''). p \<in> {0x30..0x39} \<union> {0x3B}" by (simp add: js_def)
  have n: "\<forall>ps rest. (\<forall>p\<in>set ps. p \<in> {0x30..0x39} \<union> {0x3B}) \<longrightarrow>
        0x5B # js ''0m'' \<noteq> 0x1B # 0x5B # ps @ 0x6D # rest" by simp
  have k: "colorize (js ''OK'') green = 0x1B # js ''[32mOK'' @ 0x1B # js ''[0m''"
    by (simp add: colorize_def ESC_def js_def)
  have x: "stripAnsi (js ''x'') = js ''x''" "stripAnsi (js ''0m'') = js ''0m''"
    by (simp_all add: js_def sgr_match_def)
  from t have t5: "0x1B \<notin> set (js ''OK'') \<longrightarrow>
      stripAnsi (js ''OK'') = js ''OK'' \<and>
      stripAnsi (colorize (js ''OK'') green) = js ''OK'' \<and>
      padRight (colorize (js ''OK'') green) (int 5) =
        colorize (js ''OK'') green @ replicate (5 - length (js ''OK'')) 0x20 \<and>
      length (stripAnsi (padRight (colorize (js ''OK'') green) (int 5))) = max 5 (length (js ''OK''))"
    by (elim conjE)
  from t have t3: "(\<forall>p\<in>set (js ''1;31''). p \<in> {0x30..0x39} \<union> {0x3B}) \<longrightarrow>
      stripAnsi (0x1B # 0x5B # js ''1;31'' @ 0x6D # js ''x'') = stripAnsi (js ''x'')"
    by (elim conjE)
  from t have t4: "(\<forall>ps rest. (\<forall>p\<in>set ps. p \<in> {0x30..0x39} \<union> {0x3B}) \<longrightarrow>
        0x5B # js ''0m'' \<noteq> 0x1B # 0x5B # ps @ 0x6D # rest) \<longrightarrow>
      stripAnsi (0x5B # js ''0m'') = 0x5B # stripAnsi (js ''0m'')"
    by (elim conjE)
  note u = t5 [THEN mp, OF a]
  have w2: "stripAnsi (colorize (js ''OK'') green) = js ''OK''"
    by (rule u [THEN conjunct2, THEN conjunct1])
  have w3: "padRight (colorize (js ''OK'') green) 5 =
              colorize (js ''OK'') green @ replicate 3 0x20"
    using u [THEN conjunct2, THEN conjunct2, THEN conjunct1] by (simp add: js_def)
  have w4: "length (stripAnsi (padRight (colorize (js ''OK'') green) 5)) = 5"
    using u [THEN conjunct2, THEN conjunct2, THEN conjunct2] by (simp add: js_def)
  have w6: "stripAnsi (0x1B # 0x5B # js ''1;31'' @ 0x6D # js ''x'') = js ''x''"
    using t3 [THEN mp, OF p] by (simp only: x)
  have w7: "stripAnsi (0x5B # js ''0m'') = 0x5B # js ''0m''"
    using t4 [THEN mp, OF n] by (simp only: x)
  from p have q: "set (js ''1;31'') \<subseteq> {0x30..0x39} \<union> {0x3B}" by blast
  show ?thesis by (intro conjI a k w2 w3 w4 q w6 w7)
qed

text \<open>
  Claim C8.  For every string \<open>text\<close> and every integer \<open>maxLength \<ge> 3\<close>,
  \<open>truncate(text, maxLength)\<close> is \<open>text\<close> itself when \<open>text.length \<le> maxLength\<close>, and
  otherwise the first \<open>maxLength - 3\<close> code units of \<open>text\<close> followed by three dots;
  either way the result is no longer than \<open>maxLength\<close>.
\<close>

theorem truncate_within_maxLength:
  "3 \<le> maxLength \<Longrightarrow>
     (int (length text) \<le> maxLength \<longrightarrow> truncate text maxLength = text) \<and>
     (maxLength < int (length text) \<longrightarrow>
        truncate text maxLength = take (nat (maxLength - 3)) text @ js ''...'') \<and>
     int (length (truncate text maxLength)) \<le> maxLength"
  by (auto simp: truncate_def substring_def Let_def js_def)

theorem truncate_within_maxLength_witness:
  "(3::int) \<le> 5 \<and> truncate (js ''abcdefgh'') 5 = js ''ab...'' \<and>
   truncate (js ''abcde'') 5 = js ''abcde''"
  using truncate_within_maxLength [of 5 "js ''abcdefgh''"]
        truncate_within_maxLength [of 5 "js ''abcde''"]
  by (simp add: js_def)

section \<open>Properties of the simulated CI gate\<close>

text \<open>
  Claim C1.  The simulated CI gate fails closed: whatever receipt ID it is given, the
  result has \<open>blocked = true\<close> and a non-empty message; the message is the one of the
  first branch that applies (no ID, wrong prefix, not found), and no input is let
  through.
\<close>

theorem gate_blocks_every_receipt_id:
  "blocked (simulateCIGateVerification rid) \<and>
   message (simulateCIGateVerification rid) \<noteq> [] \<and>
   message (simulateCIGateVerification rid) =
     (if rid = [] \<or> rid = js ''undefined'' \<or> rid = js ''null'' then
        js ''No receipt ID provided. No receipt = No deploy.''
      else if startsWith rid (js ''rec_'') \<or> startsWith rid (js ''apr_'') then
        js ''Receipt not found: '' @ dquote @ rid @ dquote @
        js ''. The receipt may have expired or the ID may be incorrect.''
      else
        js ''Invalid receipt ID format: '' @ dquote @ rid @ dquote @
        js ''. Expected rec_ or apr_ prefix.'') \<and>
   (\<nexists>r. \<not> blocked (simulateCIGateVerification r))"
  by (simp add: simulateCIGateVerification_def js_def)

section \<open>Properties of the decision scenarios\<close>

lemma tool_calls_append: "tool_calls (xs @ ys) = tool_calls xs @ tool_calls ys"
  by (induction xs rule: tool_calls.induct) simp_all

lemma tool_calls_logs: "tool_calls (map ConsoleLog ls) = []"
  by (induction ls) simp_all

lemma run_tool_calls:
  "tool_calls (fst (run sc execute toolBody tenant agent)) =
     (case execute (scenario_request sc tenant agent) of
        Inl err \<Rightarrow> []
      | Inr res \<Rightarrow> if status res = js ''APPROVED'' then [mock_tool sc] else [])"
  by (simp add: run_def Let_def tool_calls_append tool_calls_logs split: sum.splits prod.splits)

lemma run_rejects:
  "execute (scenario_request sc tenant agent) = Inl err \<Longrightarrow>
     snd (run sc execute toolBody tenant agent) = Some err"
  by (simp add: run_def Let_def)

text \<open>
  Claim C2.  In the \<open>run\<close> of every scenario (spend, prod-write and message among
  them) the mock tool is invoked only when the SDK returned a result whose status is
  \<open>APPROVED\<close>, and then exactly once; for a \<open>DENIED\<close> or \<open>REQUIRES_APPROVAL\<close> result,
  and when the SDK throws, it is never invoked, and a thrown error rejects \<open>run\<close>.
\<close>

theorem tool_invoked_only_when_approved:
  "(tool_calls (fst (run sc execute toolBody tenant agent)) \<noteq> [] \<longrightarrow>
      (\<exists>res. execute (scenario_request sc tenant agent) = Inr res \<and>
             status res = js ''APPROVED'')) \<and>
   (\<forall>res. execute (scenario_request sc tenant agent) = Inr res \<longrightarrow>
          tool_calls (fst (run sc execute toolBody tenant agent)) =
            (if status res = js ''APPROVED'' then [mock_tool sc] else [])) \<and>
   (\<forall>res. execute (scenario_request sc tenant agent) = Inr res \<and>
          (status res = js ''DENIED'' \<or> status res = js ''REQUIRES_APPROVAL'') \<longrightarrow>
          tool_calls (fst (run sc execute toolBody tenant agent)) = []) \<and>
   (\<forall>err. execute (scenario_request sc tenant agent) = Inl err \<longrightarrow>
          tool_calls (fst (run sc execute toolBody tenant agent)) = [] \<and>
          snd (run sc execute toolBody tenant agent) = Some err)"
proof -
  have ne: "js ''DENIED'' \<noteq> js ''APPROVED''" "js ''REQUIRES_APPROVAL'' \<noteq> js ''APPROVED''"
    by (simp_all add: js_def)
  show ?thesis
    using ne by (auto simp: run_tool_calls run_rejects split: sum.splits)
qed

theorem tool_invoked_only_when_approved_witness:
  "tool_calls (fst (run spend
      (\<lambda>req. Inr \<lparr>status = js ''DENIED'',
                     receipt = \<lparr>receiptId = js ''rec_1'', reasonCodes = None\<rparr>\<rparr> :: unit + ExecuteResult)
      ([], Inr []) (js ''acme'') (js ''demo-agent''))) = [] \<and>
   tool_calls (fst (run message_customers
      (\<lambda>req. Inr \<lparr>status = js ''APPROVED'',
                     receipt = \<lparr>receiptId = js ''rec_2'', reasonCodes = None\<rparr>\<rparr> :: unit + ExecuteResult)
      ([], Inr []) (js ''acme'') (js ''demo-agent''))) = [js ''sendCampaignMessage''] \<and>
   tool_calls (fst (run prod_write (\<lambda>req. Inl ()) ([], Inr []) (js ''acme'') (js ''demo-agent''))) = []"
proof -
  let ?denied = "\<lparr>status = js ''DENIED'',
                  receipt = \<lparr>receiptId = js ''rec_1'', reasonCodes = None\<rparr>\<rparr>"
  let ?approved = "\<lparr>status = js ''APPROVED'',
                    receipt = \<lparr>receiptId = js ''rec_2'', reasonCodes = None\<rparr>\<rparr>"
  have d: "(\<lambda>req. Inr ?denied :: unit + ExecuteResult)
             (scenario_request spend (js ''acme'') (js ''demo-agent'')) = Inr ?denied \<and>
           (status ?denied = js ''DENIED'' \<or> status ?denied = js ''REQUIRES_APPROVAL'')"
    by simp
  have a: "(\<lambda>req. Inr ?approved :: unit + ExecuteResult)
             (scenario_request message_customers (js ''acme'') (js ''demo-agent'')) = Inr ?approved"
    by simp
  have e: "(\<lambda>req. Inl () :: unit + ExecuteResult)
             (scenario_request prod_write (js ''acme'') (js ''demo-agent'')) = Inl ()"
    by simp
  note t1 = tool_invoked_only_when_approved
              [of spend "\<lambda>req. Inr ?denied" "([], Inr [])" "js ''acme''" "js ''demo-agent''",
               THEN conjunct2, THEN conjunct2, THEN conjunct1, rule_format, OF d]
  note t2 = tool_invoked_only_when_approved
              [of message_customers "\<lambda>req. Inr ?approved" "([], Inr [])" "js ''acme''"
                  "js ''demo-agent''",
               THEN conjunct2, THEN conjunct1, rule_format, OF a]
  note t3 = tool_invoked_only_when_approved
              [of prod_write "\<lambda>req. Inl ()" "([], Inr [])" "js ''acme''" "js ''demo-agent''",
               THEN conjunct2, THEN conjunct2, THEN conjunct2, rule_format, OF e, THEN conjunct1]
  have m: "mock_tool message_customers = js ''sendCampaignMessage''"
    by (simp add: message_customers_def)
  from t1 t2 t3 m show ?thesis by simp
qed

section \<open>Properties of validateEnv\<close>

text \<open>
  The claim as it was stated fails on a variable that is set to the empty string (as
  a line \<open>PP_ENDPOINT=\<close> of the \<open>.env\<close> file does): with all three variables set the
  process still exits, and an empty \<open>PP_AGENT_ID\<close> gives \<open>demo-agent\<close>, not its value.
\<close>

theorem validateEnv_empty_value_counterexample:
  "validateEnv [js ''PP_ENDPOINT'' \<mapsto> [], js ''PP_API_KEY'' \<mapsto> js ''key'',
                js ''PP_TENANT_ID'' \<mapsto> js ''acme''] =
     Exit [js ''Error: PP_ENDPOINT environment variable is required'',
           js ''Set it to your Permission Protocol API endpoint''] 1 \<and>
   validateEnv [js ''PP_ENDPOINT'' \<mapsto> js ''https://pp.example'', js ''PP_API_KEY'' \<mapsto> js ''key'',
                js ''PP_TENANT_ID'' \<mapsto> js ''acme'', js ''PP_AGENT_ID'' \<mapsto> []] =
     Return \<lparr>endpoint = js ''https://pp.example'', apiKey = js ''key'',
             tenantId = js ''acme'', agentId = js ''demo-agent''\<rparr>"
  by (simp add: validateEnv_def Let_def truthy_def or_default_def js_def)

text \<open>
  Claim C9, as amended.  \<open>validateEnv\<close> ends the process with exit code 1 whenever
  one of \<open>PP_ENDPOINT\<close>, \<open>PP_API_KEY\<close>, \<open>PP_TENANT_ID\<close> is unset or empty, and otherwise
  returns exactly those three values with \<open>agentId\<close> the value of \<open>PP_AGENT_ID\<close> when
  that is set and non-empty and \<open>demo-agent\<close> otherwise; no field of a returned
  configuration is empty.
\<close>

theorem validateEnv_all_or_exit:
  "(env (js ''PP_ENDPOINT'') = None \<or> env (js ''PP_API_KEY'') = None \<or>
      env (js ''PP_TENANT_ID'') = None
      \<longrightarrow> (\<exists>lines. validateEnv env = Exit lines 1)) \<and>
   (\<not> truthy (env (js ''PP_ENDPOINT'')) \<or> \<not> truthy (env (js ''PP_API_KEY'')) \<or>
      \<not> truthy (env (js ''PP_TENANT_ID''))
      \<longrightarrow> (\<exists>lines. validateEnv env = Exit lines 1)) \<and>
   (truthy (env (js ''PP_ENDPOINT'')) \<and> truthy (env (js ''PP_API_KEY'')) \<and>
      truthy (env (js ''PP_TENANT_ID''))
      \<longrightarrow> validateEnv env =
            Return \<lparr>endpoint = the (env (js ''PP_ENDPOINT'')),
                    apiKey = the (env (js ''PP_API_KEY'')),
                    tenantId = the (env (js ''PP_TENANT_ID'')),
                    agentId = (if truthy (env (js ''PP_AGENT_ID''))
                               then the (env (js ''PP_AGENT_ID'')) else js ''demo-agent'')\<rparr>) \<and>
   (\<forall>c. validateEnv env = Return c \<longrightarrow>
        endpoint c \<noteq> [] \<and> apiKey c \<noteq> [] \<and> tenantId c \<noteq> [] \<and> agentId c \<noteq> [])"
  by (auto simp: validateEnv_def Let_def truthy_def or_default_def js_def split: option.splits)

theorem validateEnv_all_or_exit_witness:
  "validateEnv [js ''PP_ENDPOINT'' \<mapsto> js ''https://pp.example'', js ''PP_API_KEY'' \<mapsto> js ''key'',
                js ''PP_TENANT_ID'' \<mapsto> js ''acme''] =
     Return \<lparr>endpoint = js ''https://pp.example'', apiKey = js ''key'',
             tenantId = js ''acme'', agentId = js ''demo-agent''\<rparr> \<and>
   (\<exists>lines. validateEnv [js ''PP_ENDPOINT'' \<mapsto> js ''https://pp.example'',
                          js ''PP_TENANT_ID'' \<mapsto> js ''acme''] = Exit lines 1)"
  using validateEnv_all_or_exit [of "[js ''PP_ENDPOINT'' \<mapsto> js ''https://pp.example'', js ''PP_API_KEY'' \<mapsto> js ''key'',
                js ''PP_TENANT_ID'' \<mapsto> js ''acme'']"]
        validateEnv_all_or_exit [of "[js ''PP_ENDPOINT'' \<mapsto> js ''https://pp.example'',
                          js ''PP_TENANT_ID'' \<mapsto> js ''acme'']"]
  by (simp add: truthy_def js_def)

section \<open>Properties of the decision values\<close>








section \<open>Properties of the KeyStore\<close>

lemma active_count_rotate:
  "rotate ks newKey = Inr ks' \<Longrightarrow> active_count ks' = 1"
proof -
  assume r: "rotate ks newKey = Inr ks'"
  have none: "filter (\<lambda>k. SigningKey.status k = active)
          (map (\<lambda>k. if SigningKey.status k = active
                      then k\<lparr>SigningKey.status := rotated\<rparr> else k) ks) = []"
    by (induction ks) simp_all
  from r have "ks' = map (\<lambda>k. if SigningKey.status k = active
                           then k\<lparr>SigningKey.status := rotated\<rparr> else k) ks @
                [newKey\<lparr>SigningKey.status := active\<rparr>]"
    by (simp add: rotate_def split: if_splits)
  with none show ?thesis by (simp add: active_count_def)
qed

lemma active_count_revoke:
  "revoke ks kid = Inr ks' \<Longrightarrow> active_count ks' \<le> active_count ks"
proof -
  assume r: "revoke ks kid = Inr ks'"
  have "length (filter (\<lambda>k. SigningKey.status k = active)
          (map (\<lambda>k. if SigningKey.keyId k = kid
                      then k\<lparr>SigningKey.status := revoked\<rparr> else k) ks))
        \<le> length (filter (\<lambda>k. SigningKey.status k = active) ks)"
    by (induction ks) auto
  with r show ?thesis by (auto simp: revoke_def active_count_def split: if_splits)
qed

lemma active_count_apply_op:
  "active_count ks \<le> 1 \<Longrightarrow> active_count (apply_op ks op) \<le> 1"
proof (cases op)
  case (Rotate newKey)
  assume "active_count ks \<le> 1"
  then show ?thesis
    using Rotate active_count_rotate [of ks newKey] by (auto split: sum.splits)
next
  case (Revoke kid)
  assume "active_count ks \<le> 1"
  then show ?thesis
    using Revoke active_count_revoke [of ks kid] by (fastforce split: sum.splits)
qed

lemma active_count_apply_ops:
  "active_count ks \<le> 1 \<Longrightarrow> active_count (apply_ops ks ops) \<le> 1"
  unfolding apply_ops_def
proof (induction ops arbitrary: ks)
  case Nil
  then show ?case by simp
next
  case (Cons op ops)
  from Cons.prems have "active_count (apply_op ks op) \<le> 1"
    by (rule active_count_apply_op)
  then have "active_count (foldl apply_op (apply_op ks op) ops) \<le> 1"
    by (rule Cons.IH)
  then show ?case by simp
qed

lemma advances_refl: "advances ks ks"
  by (simp add: advances_def)

lemma advances_trans:
  assumes ab: "advances a b" and bc: "advances b c"
  shows "advances a c"
  unfolding advances_def
proof (intro conjI allI impI)
  show "length a \<le> length c"
    using ab bc by (simp add: advances_def)
next
  fix i
  assume i: "i < length a"
  with ab have ib: "i < length b" by (simp add: advances_def)
  from ab i have 1: "SigningKey.keyId (b ! i) = SigningKey.keyId (a ! i)"
    and 2: "rank (SigningKey.status (a ! i)) \<le> rank (SigningKey.status (b ! i))"
    by (simp_all add: advances_def)
  from bc ib have 3: "SigningKey.keyId (c ! i) = SigningKey.keyId (b ! i)"
    and 4: "rank (SigningKey.status (b ! i)) \<le> rank (SigningKey.status (c ! i))"
    by (simp_all add: advances_def)
  from 1 3 show "SigningKey.keyId (c ! i) = SigningKey.keyId (a ! i)" by simp
  from 2 4 show "rank (SigningKey.status (a ! i)) \<le> rank (SigningKey.status (c ! i))"
    by simp
qed

lemma rank_le_2: "rank s \<le> 2"
  by (cases s) simp_all

lemma advances_apply_op: "advances ks (apply_op ks op)"
proof (cases op)
  case (Rotate newKey)
  then show ?thesis
    by (auto simp: advances_def rotate_def nth_append)
next
  case (Revoke kid)
  then show ?thesis
    by (auto simp: advances_def revoke_def rank_le_2)
qed

lemma advances_apply_ops: "advances ks (apply_ops ks ops)"
  unfolding apply_ops_def
proof (induction ops arbitrary: ks)
  case Nil
  show ?case by (simp add: advances_refl)
next
  case (Cons op ops)
  have "advances ks (apply_op ks op)" by (rule advances_apply_op)
  moreover have "advances (apply_op ks op) (foldl apply_op (apply_op ks op) ops)"
    by (rule Cons.IH)
  ultimately show ?case by (simp add: advances_trans)
qed

lemma apply_ops_split:
  "m \<le> n \<Longrightarrow>
     apply_ops ks (take n ops) = apply_ops (apply_ops ks (take m ops)) (drop m (take n ops))"
proof -
  assume "m \<le> n"
  then have "take m (take n ops) = take m ops"
    by simp
  then have "take n ops = take m ops @ drop m (take n ops)"
    using append_take_drop_id [of m "take n ops"] by simp
  then have "apply_ops ks (take n ops) = apply_ops ks (take m ops @ drop m (take n ops))"
    by simp
  then show ?thesis by (simp add: apply_ops_def)
qed

text \<open>
  Claim C7.  Starting from a KeyStore with at most one active key, after every prefix
  of every sequence of rotate and revoke calls at most one key is active; and between
  any two moments of the sequence every key stays in its place with its id, and its
  status never moves back along active, rotated, revoked: a revoked key stays revoked
  and a rotated key never becomes active again.
\<close>

theorem keystore_one_active_one_direction:
  assumes "active_count ks \<le> 1"
  shows "(\<forall>n. active_count (apply_ops ks (take n ops)) \<le> 1) \<and>
         (\<forall>m n i. m \<le> n \<and> i < length (apply_ops ks (take m ops)) \<longrightarrow>
            i < length (apply_ops ks (take n ops)) \<and>
            SigningKey.keyId (apply_ops ks (take n ops) ! i) =
              SigningKey.keyId (apply_ops ks (take m ops) ! i) \<and>
            rank (SigningKey.status (apply_ops ks (take m ops) ! i))
              \<le> rank (SigningKey.status (apply_ops ks (take n ops) ! i)) \<and>
            (SigningKey.status (apply_ops ks (take m ops) ! i) = revoked \<longrightarrow>
               SigningKey.status (apply_ops ks (take n ops) ! i) = revoked) \<and>
            (SigningKey.status (apply_ops ks (take m ops) ! i) = rotated \<longrightarrow>
               SigningKey.status (apply_ops ks (take n ops) ! i) \<noteq> active))"
proof (intro conjI allI impI)
  fix n
  show "active_count (apply_ops ks (take n ops)) \<le> 1"
    using assms by (rule active_count_apply_ops)
next
  fix m n i
  assume h: "m \<le> n \<and> i < length (apply_ops ks (take m ops))"
  let ?a = "apply_ops ks (take m ops)" and ?b = "apply_ops ks (take n ops)"
  from h have "?b = apply_ops ?a (drop m (take n ops))"
    by (simp add: apply_ops_split)
  then have adv: "advances ?a ?b"
    using advances_apply_ops [of ?a "drop m (take n ops)"] by simp
  from adv h show "i < length ?b"
    by (simp add: advances_def)
  from adv h show "SigningKey.keyId (?b ! i) = SigningKey.keyId (?a ! i)"
    by (simp add: advances_def)
  from adv h show r: "rank (SigningKey.status (?a ! i)) \<le> rank (SigningKey.status (?b ! i))"
    by (simp add: advances_def)
  { assume "SigningKey.status (?a ! i) = revoked"
    with r show "SigningKey.status (?b ! i) = revoked"
      by (cases "SigningKey.status (?b ! i)") simp_all }
  { assume "SigningKey.status (?a ! i) = rotated"
    with r show "SigningKey.status (?b ! i) \<noteq> active"
      by (cases "SigningKey.status (?b ! i)") simp_all }
qed

theorem keystore_one_active_one_direction_witness:
  "active_count [] \<le> 1 \<and>
   active_count (apply_ops [] [Rotate example_key_1, Rotate example_key_2, Revoke (js ''k1'')]) \<le> 1 \<and>
   map SigningKey.status
     (apply_ops [] [Rotate example_key_1, Rotate example_key_2, Revoke (js ''k1'')]) =
     [revoked, active]"
proof -
  let ?ops = "[Rotate example_key_1, Rotate example_key_2, Revoke (js ''k1'')]"
  have h: "active_count [] \<le> 1"
    by (simp add: active_count_def)
  from keystore_one_active_one_direction [OF h, of ?ops]
  have "\<forall>n. active_count (apply_ops [] (take n ?ops)) \<le> 1" ..
  then have "active_count (apply_ops [] (take 3 ?ops)) \<le> 1" ..
  then have a: "active_count (apply_ops [] ?ops) \<le> 1" by simp
  have e: "map SigningKey.status (apply_ops [] ?ops) = [revoked, active]"
    by (simp add: apply_ops_def rotate_def revoke_def example_key_1_def example_key_2_def js_def)
  from h a e show ?thesis by simp
qed

section \<open>Properties of the Verifier\<close>

lemma code_name_inj: "inj code_name"
proof (rule injI)
  fix a b
  assume "code_name a = code_name b"
  then show "a = b"
    by (cases a; cases b) (simp_all add: js_def)
qed

lemma code_name_range:
  "range code_name =
     {js ''PP_NO_RECEIPT'', js ''PP_EXPIRED'', js ''PP_REDEEMED'', js ''PP_SCOPE_MISMATCH'',
      js ''PP_UNSIGNED_RECEIPT'', js ''PP_INVALID_SIGNATURE''}"
proof
  show "range code_name \<subseteq>
     {js ''PP_NO_RECEIPT'', js ''PP_EXPIRED'', js ''PP_REDEEMED'', js ''PP_SCOPE_MISMATCH'',
      js ''PP_UNSIGNED_RECEIPT'', js ''PP_INVALID_SIGNATURE''}"
  proof
    fix x assume "x \<in> range code_name"
    then obtain c where "x = code_name c" by blast
    then show "x \<in> {js ''PP_NO_RECEIPT'', js ''PP_EXPIRED'', js ''PP_REDEEMED'',
      js ''PP_SCOPE_MISMATCH'', js ''PP_UNSIGNED_RECEIPT'', js ''PP_INVALID_SIGNATURE''}"
      by (cases c) simp_all
  qed
  have "code_name c \<in> range code_name" for c by simp
  from this [of PP_NO_RECEIPT] this [of PP_EXPIRED] this [of PP_REDEEMED]
       this [of PP_SCOPE_MISMATCH] this [of PP_UNSIGNED_RECEIPT] this [of PP_INVALID_SIGNATURE]
  show "{js ''PP_NO_RECEIPT'', js ''PP_EXPIRED'', js ''PP_REDEEMED'', js ''PP_SCOPE_MISMATCH'',
      js ''PP_UNSIGNED_RECEIPT'', js ''PP_INVALID_SIGNATURE''} \<subseteq> range code_name"
    by simp
qed

text \<open>The checks answer with a failure or with the receipt, never with a valid result.\<close>

lemma verify_checks_failure:
  "verify_checks mode ks sig_ok now store req = Inl failure \<Longrightarrow> failure \<noteq> Valid v"
  by (auto simp: verify_checks_def split: if_splits option.splits)

lemma verify_failure_keeps_store:
  "\<forall>v. fst (verify mode ks sig_ok now store req) \<noteq> Valid v \<Longrightarrow>
     snd (verify mode ks sig_ok now store req) = store"
  by (auto simp: verify_def verify_finish_def tryRedeem_def
           split: sum.splits option.splits if_splits)

lemma example_store_lookup:
  "[js ''rec_1'' \<mapsto> r] (VerifyRequest.receiptId example_request) = Some r"
  by (simp add: example_request_def)

lemma example_getKey: "getKey [example_key_1] (js ''k1'') = Inr example_key_1"
  by (simp add: getKey_def example_key_1_def)

text \<open>Each of the six codes is the answer to some request.\<close>

lemma verify_code_attained:
  "\<exists>ks now store req. fst (verify required ks sig_ok now store req) = Invalid code"
proof -
  note defs = verify_def verify_checks_def verify_finish_def check_expired_def
    check_redeemed_def check_scope_def check_signed_def check_signature_def
    example_receipt_def example_request_def
  have 1: "fst (verify required [] sig_ok 2000 Map.empty example_request) =
             Invalid PP_NO_RECEIPT"
    by (simp add: defs)
  have 2: "fst (verify required [] sig_ok 3601001 [js ''rec_1'' \<mapsto> example_receipt]
             example_request) = Invalid PP_EXPIRED"
    by (simp add: defs)
  have 3: "fst (verify required [] sig_ok 2001
             [js ''rec_1'' \<mapsto> example_receipt\<lparr>redeemedAt := Some 2000\<rparr>] example_request) =
             Invalid PP_REDEEMED"
    by (simp add: defs)
  have 4: "fst (verify required [] sig_ok 2000 [js ''rec_1'' \<mapsto> example_receipt]
             (example_request\<lparr>VerifyRequest.scopeRef := js ''refs/pull/16/head''\<rparr>)) =
             Invalid PP_SCOPE_MISMATCH"
    by (simp add: defs js_def)
  have 5: "fst (verify required [] sig_ok 2000
             [js ''rec_1'' \<mapsto> example_receipt\<lparr>signature := None\<rparr>] example_request) =
             Invalid PP_UNSIGNED_RECEIPT"
    by (simp add: defs)
  have 6: "fst (verify required [] sig_ok 2000 [js ''rec_1'' \<mapsto> example_receipt]
             example_request) = Invalid PP_INVALID_SIGNATURE"
    by (simp add: defs getKey_def)
  from 1 2 3 4 5 6 show ?thesis by (cases code) blast+
qed

text \<open>
  Claim C6, as stated, fails while signing is disabled: a request for a receipt the
  store does not hold is not answered \<open>PP_NO_RECEIPT\<close>, and a request for an expired
  receipt is not answered \<open>PP_EXPIRED\<close>; both are rejected with the configuration error,
  which is none of the six codes.
\<close>

theorem verify_disabled_counterexample:
  "fst (verify disabled [example_key_1] example_sig_ok 2000 Map.empty example_request) =
     ConfigurationError \<and>
   fst (verify disabled [example_key_1] example_sig_ok 2000 Map.empty example_request) \<noteq>
     Invalid PP_NO_RECEIPT \<and>
   fst (verify disabled [example_key_1] example_sig_ok 3601001
          [js ''rec_1'' \<mapsto> example_receipt] example_request) \<noteq> Invalid PP_EXPIRED"
  by (simp add: verify_def verify_checks_def)

text \<open>
  Claim C6, as amended.  While signing is disabled \<open>verify\<close> rejects every request with
  the configuration error, and only then.  In the signing modes \<open>required\<close> and
  \<open>optional\<close> it checks in a fixed order and stops at the first failure, each failure
  with its own code: a missing receipt gives \<open>PP_NO_RECEIPT\<close>; then \<open>now > expiresAt\<close>
  gives \<open>PP_EXPIRED\<close>; then a non-null \<open>redeemedAt\<close> gives \<open>PP_REDEEMED\<close>; then a scope,
  scopeRef or scopeSha that differs gives \<open>PP_SCOPE_MISMATCH\<close>; then signing mode
  \<open>required\<close> with no signature gives \<open>PP_UNSIGNED_RECEIPT\<close>; then a signature whose key
  is missing or revoked, or that does not verify, gives \<open>PP_INVALID_SIGNATURE\<close>; a
  receipt that passes all of them is valid, and is redeemed at \<open>now\<close> if the request
  asks for it.  A verification that is not valid leaves the store as it was.  The code
  of a failed verification has one of the six names, the six names are distinct, and
  each of the six codes is the answer to some request.
\<close>

theorem verify_checks_in_order:
  fixes mode ks sig_ok now store req
  defines "R \<equiv> fst (verify mode ks sig_ok now store req)"
  shows
  "(R = ConfigurationError) = (mode = disabled) \<and>
   (mode \<noteq> disabled \<longrightarrow>
     (store (VerifyRequest.receiptId req) = None \<longrightarrow> R = Invalid PP_NO_RECEIPT) \<and>
     (\<forall>r. store (VerifyRequest.receiptId req) = Some r \<longrightarrow>
        (now > Receipt.expiresAt r \<longrightarrow> R = Invalid PP_EXPIRED) \<and>
        (now \<le> Receipt.expiresAt r \<and> Receipt.redeemedAt r \<noteq> None \<longrightarrow>
           R = Invalid PP_REDEEMED) \<and>
        (now \<le> Receipt.expiresAt r \<and> Receipt.redeemedAt r = None \<and>
         (VerifyRequest.scope req \<noteq> Receipt.scope r \<or>
          VerifyRequest.scopeRef req \<noteq> Receipt.scopeRef r \<or>
          VerifyRequest.scopeSha req \<noteq> Receipt.scopeSha r)
           \<longrightarrow> R = Invalid PP_SCOPE_MISMATCH) \<and>
        (now \<le> Receipt.expiresAt r \<and> Receipt.redeemedAt r = None \<and>
         VerifyRequest.scope req = Receipt.scope r \<and>
         VerifyRequest.scopeRef req = Receipt.scopeRef r \<and>
         VerifyRequest.scopeSha req = Receipt.scopeSha r \<longrightarrow>
           (mode = required \<and> Receipt.signature r = None \<longrightarrow>
              R = Invalid PP_UNSIGNED_RECEIPT) \<and>
           (\<forall>sg. Receipt.signature r = Some sg \<and>
                 (Receipt.keyId r = None \<or>
                  (\<exists>kid. Receipt.keyId r = Some kid \<and>
                     (getKey ks kid = Inl NotFound \<or>
                      (\<exists>k. getKey ks kid = Inr k \<and>
                         (SigningKey.status k = revoked \<or>
                          \<not> sig_ok (SigningKey.publicKey k) r sg)))))
                 \<longrightarrow> R = Invalid PP_INVALID_SIGNATURE) \<and>
           (mode = optional \<and> Receipt.signature r = None \<longrightarrow>
              R = (if redeem req
                   then Valid (public_view (r\<lparr>Receipt.redeemedAt := Some now\<rparr>))
                   else Valid (public_view r))) \<and>
           (\<forall>sg kid k. Receipt.signature r = Some sg \<and> Receipt.keyId r = Some kid \<and>
                 getKey ks kid = Inr k \<and> SigningKey.status k \<noteq> revoked \<and>
                 sig_ok (SigningKey.publicKey k) r sg \<longrightarrow>
                 R = (if redeem req
                      then Valid (public_view (r\<lparr>Receipt.redeemedAt := Some now\<rparr>))
                      else Valid (public_view r)))) \<and>
        (\<forall>v. R = Valid v \<longrightarrow>
           snd (verify mode ks sig_ok now store req) =
             (if redeem req
              then store(VerifyRequest.receiptId req \<mapsto> r\<lparr>Receipt.redeemedAt := Some now\<rparr>)
              else store)))) \<and>
   ((\<forall>v. R \<noteq> Valid v) \<longrightarrow> snd (verify mode ks sig_ok now store req) = store) \<and>
   (\<forall>code. R = Invalid code \<longrightarrow>
      code_name code \<in> {js ''PP_NO_RECEIPT'', js ''PP_EXPIRED'', js ''PP_REDEEMED'',
                         js ''PP_SCOPE_MISMATCH'', js ''PP_UNSIGNED_RECEIPT'',
                         js ''PP_INVALID_SIGNATURE''}) \<and>
   inj code_name \<and>
   range code_name = {js ''PP_NO_RECEIPT'', js ''PP_EXPIRED'', js ''PP_REDEEMED'',
                      js ''PP_SCOPE_MISMATCH'', js ''PP_UNSIGNED_RECEIPT'',
                      js ''PP_INVALID_SIGNATURE''} \<and>
   (\<forall>code. \<exists>ks' now' store' req'.
      fst (verify required ks' sig_ok now' store' req') = Invalid code)"
proof -
  note defs = R_def verify_def verify_checks_def verify_finish_def tryRedeem_def
    check_expired_def check_redeemed_def check_scope_def check_signed_def
    check_signature_def
  have a: "(R = ConfigurationError) = (mode = disabled)"
    by (auto simp: defs split: sum.splits option.splits if_splits)
  have b: "mode \<noteq> disabled \<longrightarrow>
     (store (VerifyRequest.receiptId req) = None \<longrightarrow> R = Invalid PP_NO_RECEIPT) \<and>
     (\<forall>r. store (VerifyRequest.receiptId req) = Some r \<longrightarrow>
        (now > Receipt.expiresAt r \<longrightarrow> R = Invalid PP_EXPIRED) \<and>
        (now \<le> Receipt.expiresAt r \<and> Receipt.redeemedAt r \<noteq> None \<longrightarrow>
           R = Invalid PP_REDEEMED) \<and>
        (now \<le> Receipt.expiresAt r \<and> Receipt.redeemedAt r = None \<and>
         (VerifyRequest.scope req \<noteq> Receipt.scope r \<or>
          VerifyRequest.scopeRef req \<noteq> Receipt.scopeRef r \<or>
          VerifyRequest.scopeSha req \<noteq> Receipt.scopeSha r)
           \<longrightarrow> R = Invalid PP_SCOPE_MISMATCH) \<and>
        (now \<le> Receipt.expiresAt r \<and> Receipt.redeemedAt r = None \<and>
         VerifyRequest.scope req = Receipt.scope r \<and>
         VerifyRequest.scopeRef req = Receipt.scopeRef r \<and>
         VerifyRequest.scopeSha req = Receipt.scopeSha r \<longrightarrow>
           (mode = required \<and> Receipt.signature r = None \<longrightarrow>
              R = Invalid PP_UNSIGNED_RECEIPT) \<and>
           (\<forall>sg. Receipt.signature r = Some sg \<and>
                 (Receipt.keyId r = None \<or>
                  (\<exists>kid. Receipt.keyId r = Some kid \<and>
                     (getKey ks kid = Inl NotFound \<or>
                      (\<exists>k. getKey ks kid = Inr k \<and>
                         (SigningKey.status k = revoked \<or>
                          \<not> sig_ok (SigningKey.publicKey k) r sg)))))
                 \<longrightarrow> R = Invalid PP_INVALID_SIGNATURE) \<and>
           (mode = optional \<and> Receipt.signature r = None \<longrightarrow>
              R = (if redeem req
                   then Valid (public_view (r\<lparr>Receipt.redeemedAt := Some now\<rparr>))
                   else Valid (public_view r))) \<and>
           (\<forall>sg kid k. Receipt.signature r = Some sg \<and> Receipt.keyId r = Some kid \<and>
                 getKey ks kid = Inr k \<and> SigningKey.status k \<noteq> revoked \<and>
                 sig_ok (SigningKey.publicKey k) r sg \<longrightarrow>
                 R = (if redeem req
                      then Valid (public_view (r\<lparr>Receipt.redeemedAt := Some now\<rparr>))
                      else Valid (public_view r)))) \<and>
        (\<forall>v. R = Valid v \<longrightarrow>
           snd (verify mode ks sig_ok now store req) =
             (if redeem req
              then store(VerifyRequest.receiptId req \<mapsto> r\<lparr>Receipt.redeemedAt := Some now\<rparr>)
              else store)))"
    by (intro conjI allI impI)
       (auto simp: defs split: sum.splits option.splits if_splits)
  have c: "(\<forall>v. R \<noteq> Valid v) \<longrightarrow> snd (verify mode ks sig_ok now store req) = store"
    unfolding R_def using verify_failure_keeps_store by blast
  have d: "\<forall>code. R = Invalid code \<longrightarrow>
      code_name code \<in> {js ''PP_NO_RECEIPT'', js ''PP_EXPIRED'', js ''PP_REDEEMED'',
                         js ''PP_SCOPE_MISMATCH'', js ''PP_UNSIGNED_RECEIPT'',
                         js ''PP_INVALID_SIGNATURE''}"
    using code_name_range by blast
  have e: "\<forall>code. \<exists>ks' now' store' req'.
      fst (verify required ks' sig_ok now' store' req') = Invalid code"
    using verify_code_attained by blast
  from a b c d code_name_inj code_name_range e show ?thesis by blast
qed

theorem verify_checks_in_order_witness:
  "required \<noteq> disabled \<and>
   fst (verify disabled [example_key_1] example_sig_ok 2000
          [js ''rec_1'' \<mapsto> example_receipt] example_request) = ConfigurationError \<and>
   fst (verify required [example_key_1] example_sig_ok 2000 Map.empty example_request) =
     Invalid PP_NO_RECEIPT \<and>
   fst (verify required [example_key_1] example_sig_ok 3601001
          [js ''rec_1'' \<mapsto> example_receipt] example_request) = Invalid PP_EXPIRED \<and>
   fst (verify required [example_key_1] example_sig_ok 2001
          [js ''rec_1'' \<mapsto> example_receipt\<lparr>redeemedAt := Some 2000\<rparr>] example_request) =
     Invalid PP_REDEEMED \<and>
   fst (verify required [example_key_1] example_sig_ok 2000
          [js ''rec_1'' \<mapsto> example_receipt]
          (example_request\<lparr>VerifyRequest.scopeRef := js ''refs/pull/16/head''\<rparr>)) =
     Invalid PP_SCOPE_MISMATCH \<and>
   fst (verify required [example_key_1] example_sig_ok 2000
          [js ''rec_1'' \<mapsto> example_receipt\<lparr>signature := None\<rparr>] example_request) =
     Invalid PP_UNSIGNED_RECEIPT \<and>
   fst (verify required [example_key_1] example_sig_ok 2000
          [js ''rec_1'' \<mapsto> example_receipt] example_request) =
     Valid (public_view (example_receipt\<lparr>redeemedAt := Some 2000\<rparr>)) \<and>
   fst (verify required [example_key_1\<lparr>SigningKey.status := revoked\<rparr>] example_sig_ok 2000
          [js ''rec_1'' \<mapsto> example_receipt] example_request) =
     Invalid PP_INVALID_SIGNATURE"
proof -
  let ?v = "verify required [example_key_1] example_sig_ok"
  note eqs = example_receipt_def example_request_def
  have m: "required \<noteq> disabled" by simp
  have 0: "fst (verify disabled [example_key_1] example_sig_ok 2000
             [js ''rec_1'' \<mapsto> example_receipt] example_request) = ConfigurationError"
    using verify_checks_in_order
            [where store = "[js ''rec_1'' \<mapsto> example_receipt]" and req = example_request
               and now = 2000 and mode = disabled and ks = "[example_key_1]"
               and sig_ok = example_sig_ok,
             THEN conjunct1]
    by simp
  have 1: "fst (?v 2000 Map.empty example_request) = Invalid PP_NO_RECEIPT"
    using verify_checks_in_order
            [where store = Map.empty and req = example_request and now = 2000
               and mode = required and ks = "[example_key_1]" and sig_ok = example_sig_ok,
             THEN conjunct2, THEN conjunct1, THEN mp, OF m, THEN conjunct1]
    by simp
  have 2: "fst (?v 3601001 [js ''rec_1'' \<mapsto> example_receipt] example_request) =
             Invalid PP_EXPIRED"
    using verify_checks_in_order
            [where store = "[js ''rec_1'' \<mapsto> example_receipt]" and req = example_request
               and now = 3601001 and mode = required and ks = "[example_key_1]"
               and sig_ok = example_sig_ok,
             THEN conjunct2, THEN conjunct1, THEN mp, OF m,
             THEN conjunct2, rule_format, OF example_store_lookup,
             THEN conjunct1]
    by (simp add: example_receipt_def)
  have 3: "fst (?v 2001 [js ''rec_1'' \<mapsto> example_receipt\<lparr>redeemedAt := Some 2000\<rparr>]
             example_request) = Invalid PP_REDEEMED"
    using verify_checks_in_order
            [where store = "[js ''rec_1'' \<mapsto> example_receipt\<lparr>redeemedAt := Some 2000\<rparr>]"
               and req = example_request
               and now = 2001 and mode = required and ks = "[example_key_1]"
               and sig_ok = example_sig_ok,
             THEN conjunct2, THEN conjunct1, THEN mp, OF m,
             THEN conjunct2, rule_format, OF example_store_lookup,
             THEN conjunct2, THEN conjunct1]
    by (simp add: example_receipt_def)
  have 4: "fst (?v 2000 [js ''rec_1'' \<mapsto> example_receipt]
             (example_request\<lparr>VerifyRequest.scopeRef := js ''refs/pull/16/head''\<rparr>)) =
             Invalid PP_SCOPE_MISMATCH"
    using verify_checks_in_order
            [where store = "[js ''rec_1'' \<mapsto> example_receipt]"
               and req = "example_request\<lparr>VerifyRequest.scopeRef := js ''refs/pull/16/head''\<rparr>"
               and now = 2000 and mode = required and ks = "[example_key_1]"
               and sig_ok = example_sig_ok,
             THEN conjunct2, THEN conjunct1, THEN mp, OF m,
             THEN conjunct2, rule_format, of example_receipt,
             THEN conjunct2, THEN conjunct2, THEN conjunct1]
    by (simp add: eqs js_def)
  have 5: "fst (?v 2000 [js ''rec_1'' \<mapsto> example_receipt] example_request) =
             Valid (public_view (example_receipt\<lparr>redeemedAt := Some 2000\<rparr>))"
    using verify_checks_in_order
            [where store = "[js ''rec_1'' \<mapsto> example_receipt]" and req = example_request
               and now = 2000 and mode = required and ks = "[example_key_1]"
               and sig_ok = example_sig_ok,
             THEN conjunct2, THEN conjunct1, THEN mp, OF m,
             THEN conjunct2, rule_format, OF example_store_lookup,
             THEN conjunct2, THEN conjunct2, THEN conjunct2, THEN conjunct1, rule_format,
             THEN conjunct2, THEN conjunct2, THEN conjunct2, rule_format,
             of "js ''pk1rec_1''" "js ''k1''" example_key_1]
          example_getKey
    by (simp add: eqs example_sig_ok_def example_key_1_def js_def)
  have 6: "fst (verify required [example_key_1\<lparr>SigningKey.status := revoked\<rparr>]
                  example_sig_ok 2000 [js ''rec_1'' \<mapsto> example_receipt] example_request) =
             Invalid PP_INVALID_SIGNATURE"
    using verify_checks_in_order
            [where store = "[js ''rec_1'' \<mapsto> example_receipt]" and req = example_request
               and now = 2000 and mode = required
               and ks = "[example_key_1\<lparr>SigningKey.status := revoked\<rparr>]"
               and sig_ok = example_sig_ok,
             THEN conjunct2, THEN conjunct1, THEN mp, OF m,
             THEN conjunct2, rule_format, OF example_store_lookup,
             THEN conjunct2, THEN conjunct2, THEN conjunct2, THEN conjunct1, rule_format,
             THEN conjunct2, THEN conjunct1, rule_format, of "js ''pk1rec_1''"]
    by (simp add: eqs getKey_def example_key_1_def js_def)
  have 7: "fst (?v 2000 [js ''rec_1'' \<mapsto> example_receipt\<lparr>signature := None\<rparr>]
             example_request) = Invalid PP_UNSIGNED_RECEIPT"
    using verify_checks_in_order
            [where store = "[js ''rec_1'' \<mapsto> example_receipt\<lparr>signature := None\<rparr>]"
               and req = example_request
               and now = 2000 and mode = required and ks = "[example_key_1]"
               and sig_ok = example_sig_ok,
             THEN conjunct2, THEN conjunct1, THEN mp, OF m,
             THEN conjunct2, rule_format, OF example_store_lookup,
             THEN conjunct2, THEN conjunct2, THEN conjunct2, THEN conjunct1, rule_format,
             THEN conjunct1]
    by (simp add: eqs)
  from m 0 1 2 3 4 5 6 7 show ?thesis by simp
qed

section \<open>Properties of concurrent redemption\<close>

lemma filter_update_count:
  "i < length xs \<Longrightarrow>
     length (filter P (xs[i := y])) + (if P (xs ! i) then 1 else 0) =
     length (filter P xs) + (if P y then 1 else 0)"
proof (induction xs arbitrary: i)
  case Nil
  then show ?case by simp
next
  case (Cons x xs)
  then show ?case by (cases i) auto
qed

lemma tryRedeem_Ok:
  "tryRedeem store rid now = (Ok, store') \<Longrightarrow>
     redeemedAt_of store rid = None \<and> redeemedAt_of store' rid = Some now \<and>
     (\<forall>x. x \<noteq> rid \<longrightarrow> store' x = store x)"
  by (auto simp: tryRedeem_def redeemedAt_of_def split: option.splits if_splits)

lemma tryRedeem_AlreadyRedeemed:
  "tryRedeem store rid now = (AlreadyRedeemed, store') \<Longrightarrow> store' = store"
  by (auto simp: tryRedeem_def split: option.splits if_splits)

lemma tryRedeem_mono:
  "tryRedeem store rid now = (res, store') \<Longrightarrow> redeemedAt_of store x = Some t \<Longrightarrow>
     redeemedAt_of store' x = Some t"
  by (auto simp: tryRedeem_def redeemedAt_of_def split: option.splits if_splits)

lemma verify_finish_mono:
  "verify_finish now store req r = (res, store') \<Longrightarrow> redeemedAt_of store x = Some t \<Longrightarrow>
     redeemedAt_of store' x = Some t"
  by (auto simp: verify_finish_def split: if_splits prod.splits redeem_result.splits
           dest: tryRedeem_mono)

lemma caller_step_mono:
  "caller_step mode ks sig_ok now store c = (c', store') \<Longrightarrow>
     redeemedAt_of store x = Some t \<Longrightarrow> redeemedAt_of store' x = Some t"
  by (induction mode ks sig_ok now store c rule: caller_step.induct)
     (auto split: prod.splits sum.splits dest: tryRedeem_mono verify_finish_mono)

lemma caller_step_returned:
  "caller_step mode ks sig_ok now store (c, Returned a) = ((c, Returned a), store)"
  by (cases c) simp_all

lemma redeemed_by_returned: "redeemed_by rid c \<Longrightarrow> \<exists>k a. c = (k, Returned a)"
  by (induction rid c rule: redeemed_by.induct) simp_all

lemma caller_step_redeems:
  "caller_step mode ks sig_ok now store c = (c', store') \<Longrightarrow>
     redeemed_by rid c' \<Longrightarrow> \<not> redeemed_by rid c \<Longrightarrow>
     redeemedAt_of store rid = None \<and> redeemedAt_of store' rid \<noteq> None"
proof (induction mode ks sig_ok now store c rule: caller_step.induct)
  case (1 mode ks sig_ok now store r)
  then show ?case
    by (cases "fst (tryRedeem store r now)") (auto split: prod.splits dest: tryRedeem_Ok)
next
  case (2 mode ks sig_ok now store req)
  show ?case
  proof (cases "verify_checks mode ks sig_ok now store req")
    case (Inl failure)
    with verify_checks_failure have "\<forall>v. failure \<noteq> Valid v" by blast
    then have "\<not> redeemed_by rid (VerifyCall req, Returned (Verified failure))"
      by (cases failure) simp_all
    with 2 Inl show ?thesis by auto
  next
    case (Inr r)
    with 2 show ?thesis by auto
  qed
next
  case (3 mode ks sig_ok now store req r)
  then show ?case
    by (auto simp: verify_finish_def split: prod.splits if_splits redeem_result.splits
             dest: tryRedeem_Ok)
qed auto

lemma at_most_once_step:
  assumes inv: "at_most_once rid (store, cs)"
    and i: "i < length cs"
    and step: "caller_step mode ks sig_ok now store (cs ! i) = (c', store')"
  shows "at_most_once rid (store', cs[i := c'])"
proof (cases "redeemed_by rid (cs ! i)")
  case True
  then obtain k a where "cs ! i = (k, Returned a)"
    using redeemed_by_returned by blast
  with step have "c' = cs ! i" "store' = store"
    by (simp_all add: caller_step_returned)
  with inv show ?thesis by simp
next
  case False
  note count = filter_update_count [OF i, of "redeemed_by rid" c']
  show ?thesis
  proof (cases "redeemed_by rid c'")
    case True
    from caller_step_redeems [OF step True False]
    have none: "redeemedAt_of store rid = None" and some: "redeemedAt_of store' rid \<noteq> None"
      by simp_all
    from inv none have "redemptions rid cs = 0"
      by (auto simp: at_most_once_def)
    with count True False have "redemptions rid (cs[i := c']) = 1"
      by (simp add: redemptions_def)
    with some show ?thesis by (simp add: at_most_once_def)
  next
    case no: False
    from count no False have same: "redemptions rid (cs[i := c']) = redemptions rid cs"
      by (simp add: redemptions_def)
    have "redeemedAt_of store rid \<noteq> None \<Longrightarrow> redeemedAt_of store' rid \<noteq> None"
      using caller_step_mono [OF step] by auto
    with inv same show ?thesis by (auto simp: at_most_once_def)
  qed
qed

lemma at_most_once_exec:
  "at_most_once rid sys \<Longrightarrow> at_most_once rid (exec mode ks sig_ok sched sys)"
proof (induction mode ks sig_ok sched sys rule: exec.induct)
  case (1 mode ks sig_ok sys)
  then show ?case by simp
next
  case (2 mode ks sig_ok i now sched store cs)
  show ?case
  proof (cases "i < length cs")
    case True
    obtain c' store' where step: "caller_step mode ks sig_ok now store (cs ! i) = (c', store')"
      by (cases "caller_step mode ks sig_ok now store (cs ! i)")
    from at_most_once_step [OF "2.prems" True step]
    have "at_most_once rid (store', cs[i := c'])" .
    then have "at_most_once rid (exec mode ks sig_ok sched (store', cs[i := c']))"
      by (rule "2.IH"(1) [OF True step [symmetric]])
    with True step show ?thesis by simp
  next
    case False
    with 2 show ?thesis by simp
  qed
qed

lemma redemptions_waiting:
  "\<forall>c\<in>set cs. snd c = Waiting \<Longrightarrow> redemptions rid cs = 0"
proof -
  assume w: "\<forall>c\<in>set cs. snd c = Waiting"
  have "\<And>c. c \<in> set cs \<Longrightarrow> \<not> redeemed_by rid c"
  proof
    fix c assume "c \<in> set cs" and "redeemed_by rid c"
    with w redeemed_by_returned [of rid c] show False by auto
  qed
  then show ?thesis by (simp add: redemptions_def)
qed

lemma exec_append:
  "exec mode ks sig_ok (a @ b) sys = exec mode ks sig_ok b (exec mode ks sig_ok a sys)"
  by (induction mode ks sig_ok a sys rule: exec.induct) (auto split: prod.splits)

lemma exec_mono:
  "redeemedAt_of (fst sys) x = Some t \<Longrightarrow>
     redeemedAt_of (fst (exec mode ks sig_ok sched sys)) x = Some t"
proof (induction mode ks sig_ok sched sys rule: exec.induct)
  case (1 mode ks sig_ok sys)
  then show ?case by simp
next
  case (2 mode ks sig_ok i now sched store cs)
  show ?case
  proof (cases "i < length cs")
    case True
    obtain c' store' where step: "caller_step mode ks sig_ok now store (cs ! i) = (c', store')"
      by (cases "caller_step mode ks sig_ok now store (cs ! i)")
    from caller_step_mono [OF step] "2.prems" have "redeemedAt_of (fst (store', cs[i := c'])) x = Some t"
      by simp
    then have "redeemedAt_of (fst (exec mode ks sig_ok sched (store', cs[i := c']))) x = Some t"
      by (rule "2.IH"(1) [OF True step [symmetric]])
    with True step show ?thesis by simp
  next
    case False
    with 2 show ?thesis by simp
  qed
qed

lemma answered_waiting:
  "\<forall>c\<in>set cs. c = (k, Waiting) \<Longrightarrow> answered a cs = 0"
  by (induction cs) (simp_all add: answered_def)

lemma redeem_race_step:
  assumes inv: "redeem_race rid (store, cs)"
    and i: "i < length cs"
    and step: "caller_step mode ks sig_ok now store (cs ! i) = (c', store')"
  shows "redeem_race rid (store', cs[i := c'])"
proof -
  from inv obtain r where r: "store rid = Some r"
    by (auto simp: redeem_race_def)
  from inv i have shape:
    "cs ! i = (RedeemCall rid, Waiting) \<or> cs ! i = (RedeemCall rid, Returned (Redeemed Ok)) \<or>
     cs ! i = (RedeemCall rid, Returned (Redeemed AlreadyRedeemed))"
    by (simp add: redeem_race_def)
  have sub: "set (cs[i := c']) \<subseteq> insert c' (set cs)"
    by (rule set_update_subset_insert)
  note count = filter_update_count [OF i, of "\<lambda>c. snd c = Returned (Redeemed Ok)" c']
  show ?thesis
  proof (cases "cs ! i = (RedeemCall rid, Waiting)")
    case False
    with shape step have "c' = cs ! i" "store' = store" by auto
    with inv show ?thesis by simp
  next
    case True
    show ?thesis
    proof (cases "Receipt.redeemedAt r")
      case None
      with r True step have c': "c' = (RedeemCall rid, Returned (Redeemed Ok))"
        and store': "store' = store(rid \<mapsto> r\<lparr>Receipt.redeemedAt := Some now\<rparr>)"
        by (simp_all add: tryRedeem_def)
      from None r inv have "\<forall>c\<in>set cs. c = (RedeemCall rid, Waiting)"
        by (simp add: redeem_race_def redeemedAt_of_def)
      then have "answered (Redeemed Ok) cs = 0" by (rule answered_waiting)
      with count c' True have "answered (Redeemed Ok) (cs[i := c']) = 1"
        by (simp add: answered_def)
      moreover have "redeemedAt_of store' rid \<noteq> None"
        by (simp add: store' redeemedAt_of_def)
      moreover have "store' rid \<noteq> None" by (simp add: store')
      moreover from inv sub c'
      have "\<forall>c\<in>set (cs[i := c']).
              c = (RedeemCall rid, Waiting) \<or> c = (RedeemCall rid, Returned (Redeemed Ok)) \<or>
              c = (RedeemCall rid, Returned (Redeemed AlreadyRedeemed))"
        by (auto simp: redeem_race_def)
      ultimately show ?thesis by (auto simp: redeem_race_def)
    next
      case (Some t)
      with r True step have c': "c' = (RedeemCall rid, Returned (Redeemed AlreadyRedeemed))"
        and store': "store' = store"
        by (simp_all add: tryRedeem_def)
      from Some r have set: "redeemedAt_of store rid \<noteq> None"
        by (simp add: redeemedAt_of_def)
      with inv have "answered (Redeemed Ok) cs = 1" by (simp add: redeem_race_def)
      with count c' True have "answered (Redeemed Ok) (cs[i := c']) = 1"
        by (simp add: answered_def)
      moreover from inv sub c'
      have "\<forall>c\<in>set (cs[i := c']).
              c = (RedeemCall rid, Waiting) \<or> c = (RedeemCall rid, Returned (Redeemed Ok)) \<or>
              c = (RedeemCall rid, Returned (Redeemed AlreadyRedeemed))"
        by (auto simp: redeem_race_def)
      ultimately show ?thesis using set r by (auto simp: redeem_race_def store')
    qed
  qed
qed

lemma redeem_race_exec:
  "redeem_race rid sys \<Longrightarrow> redeem_race rid (exec mode ks sig_ok sched sys)"
proof (induction mode ks sig_ok sched sys rule: exec.induct)
  case (1 mode ks sig_ok sys)
  then show ?case by simp
next
  case (2 mode ks sig_ok i now sched store cs)
  show ?case
  proof (cases "i < length cs")
    case True
    obtain c' store' where step: "caller_step mode ks sig_ok now store (cs ! i) = (c', store')"
      by (cases "caller_step mode ks sig_ok now store (cs ! i)")
    from redeem_race_step [OF "2.prems" True step]
    have "redeem_race rid (store', cs[i := c'])" .
    then have "redeem_race rid (exec mode ks sig_ok sched (store', cs[i := c']))"
      by (rule "2.IH"(1) [OF True step [symmetric]])
    with True step show ?thesis by simp
  next
    case False
    with 2 show ?thesis by simp
  qed
qed

lemma exec_length: "length (snd (exec mode ks sig_ok sched sys)) = length (snd sys)"
  by (induction mode ks sig_ok sched sys rule: exec.induct) (auto split: prod.splits)

lemma answered_split:
  "\<forall>c\<in>set cs. snd c = Returned (Redeemed Ok) \<or> snd c = Returned (Redeemed AlreadyRedeemed)
     \<Longrightarrow> answered (Redeemed Ok) cs + answered (Redeemed AlreadyRedeemed) cs = length cs"
  by (induction cs) (auto simp: answered_def)

lemma redeem_race_finished:
  assumes inv: "redeem_race rid (store, cs)" and n: "cs \<noteq> []"
    and fin: "\<forall>c\<in>set cs. returned c"
  shows "answered (Redeemed Ok) cs = 1 \<and>
         answered (Redeemed AlreadyRedeemed) cs = length cs - 1 \<and>
         redeemedAt_of store rid \<noteq> None"
proof -
  from n obtain c where c: "c \<in> set cs" by (cases cs) auto
  with fin have "c \<noteq> (RedeemCall rid, Waiting)" by auto
  with inv c have set: "redeemedAt_of store rid \<noteq> None"
    by (auto simp: redeem_race_def)
  with inv have ok: "answered (Redeemed Ok) cs = 1" by (simp add: redeem_race_def)
  from inv fin
  have "\<forall>c\<in>set cs. snd c = Returned (Redeemed Ok) \<or> snd c = Returned (Redeemed AlreadyRedeemed)"
    by (fastforce simp: redeem_race_def)
  then have "answered (Redeemed Ok) cs + answered (Redeemed AlreadyRedeemed) cs = length cs"
    by (rule answered_split)
  with ok set show ?thesis by simp
qed

lemma take_split:
  "m \<le> n \<Longrightarrow> take n xs = take m xs @ drop m (take n xs)"
proof -
  assume "m \<le> n"
  then have "take m (take n xs) = take m xs" by simp
  then show ?thesis using append_take_drop_id [of m "take n xs"] by simp
qed

text \<open>A step takes a caller that has not returned one step nearer to its answer.\<close>

lemma steps_left_0: "steps_left c = 0 \<Longrightarrow> returned c"
  by (induction c rule: steps_left.induct) simp_all

lemma caller_step_progress:
  "caller_step mode ks sig_ok now store c = (c', store') \<Longrightarrow>
     \<forall>r x. c \<noteq> (RedeemCall r, Checked x) \<Longrightarrow>
     steps_left c' \<le> steps_left c - 1 \<and> (\<forall>r x. c' \<noteq> (RedeemCall r, Checked x))"
  by (induction mode ks sig_ok now store c rule: caller_step.induct)
     (auto split: prod.splits sum.splits)

text \<open>A caller that the schedule lets move as often as it has steps left has
  returned at the end, whatever the other callers do in between.\<close>

lemma exec_returns:
  "i < length (snd sys) \<Longrightarrow> \<forall>r x. snd sys ! i \<noteq> (RedeemCall r, Checked x) \<Longrightarrow>
     steps_left (snd sys ! i) \<le> moves i sched \<Longrightarrow>
     returned (snd (exec mode ks sig_ok sched sys) ! i)"
proof (induction mode ks sig_ok sched sys rule: exec.induct)
  case (1 mode ks sig_ok sys)
  then show ?case by (simp add: moves_def steps_left_0)
next
  case (2 mode ks sig_ok j now sched store cs)
  from "2.prems" have i: "i < length cs"
    and ok: "\<forall>r x. cs ! i \<noteq> (RedeemCall r, Checked x)"
    and left: "steps_left (cs ! i) \<le> moves i ((j, now) # sched)"
    by simp_all
  show ?case
  proof (cases "j < length cs")
    case True
    obtain c' store' where step: "caller_step mode ks sig_ok now store (cs ! j) = (c', store')"
      by (cases "caller_step mode ks sig_ok now store (cs ! j)")
    have "returned (snd (exec mode ks sig_ok sched (store', cs[j := c'])) ! i)"
    proof (rule "2.IH"(1) [OF True step [symmetric]])
      show "i < length (snd (store', cs[j := c']))" using i by simp
      show "\<forall>r x. snd (store', cs[j := c']) ! i \<noteq> (RedeemCall r, Checked x)"
      proof (cases "j = i")
        case True
        with caller_step_progress [OF step] ok i show ?thesis by simp
      next
        case False
        with ok show ?thesis by simp
      qed
      show "steps_left (snd (store', cs[j := c']) ! i) \<le> moves i sched"
      proof (cases "j = i")
        case True
        with caller_step_progress [OF step] ok have "steps_left c' \<le> steps_left (cs ! i) - 1"
          by simp
        moreover from True left have "steps_left (cs ! i) - 1 \<le> moves i sched"
          by (simp add: moves_def)
        ultimately show ?thesis using True i by simp
      next
        case False
        with left show ?thesis by (simp add: moves_def)
      qed
    qed
    with True step show ?thesis by simp
  next
    case False
    with i have ne: "j \<noteq> i" by auto
    have "returned (snd (exec mode ks sig_ok sched (store, cs)) ! i)"
    proof (rule "2.IH"(2) [OF False])
      show "i < length (snd (store, cs))" using i by simp
      show "\<forall>r x. snd (store, cs) ! i \<noteq> (RedeemCall r, Checked x)" using ok by simp
      show "steps_left (snd (store, cs) ! i) \<le> moves i sched"
        using left ne by (simp add: moves_def)
    qed
    with False show ?thesis by simp
  qed
qed

lemma exec_all_returned:
  assumes start: "\<forall>c\<in>set cs. snd c = Waiting"
    and often: "\<forall>i<length cs. steps_left (cs ! i) \<le> moves i sched"
  shows "\<forall>c\<in>set (snd (exec mode ks sig_ok sched (store, cs))). returned c"
proof
  fix c
  assume "c \<in> set (snd (exec mode ks sig_ok sched (store, cs)))"
  then obtain i where i: "i < length cs"
    and c: "c = snd (exec mode ks sig_ok sched (store, cs)) ! i"
    by (auto simp: in_set_conv_nth exec_length)
  from start i have "snd (cs ! i) = Waiting" by simp
  then have "\<forall>r x. cs ! i \<noteq> (RedeemCall r, Checked x)" by auto
  with i often have "returned (snd (exec mode ks sig_ok sched (store, cs)) ! i)"
    by (intro exec_returns) simp_all
  with c show "returned c" by simp
qed

lemma steps_left_le_2: "steps_left c \<le> 2"
  by (induction c rule: steps_left.induct) simp_all

text \<open>
  Claim C5.  Callers start together and are interleaved by any schedule.  At every
  moment at most one caller has redeemed the receipt \<open>rid\<close>; once \<open>redeemedAt\<close> holds a
  timestamp it holds that timestamp ever after; two concurrent calls of \<open>verify\<close> with
  \<open>redeem = true\<close> for the receipt never both answer valid.  No caller waits for
  another: once the schedule has let every caller move twice, all have returned.  And
  once the schedule has let each of \<open>N \<ge> 1\<close> callers of \<open>tryRedeem\<close> on an unredeemed
  receipt move, in whatever order and however often, all have returned, exactly one was
  answered \<open>Ok\<close> and \<open>N - 1\<close> were answered \<open>AlreadyRedeemed\<close>, and \<open>redeemedAt\<close> is set.
\<close>

theorem redemption_at_most_once:
  fixes mode ks sig_ok sched store cs rid
  defines "after \<equiv> \<lambda>n. exec mode ks sig_ok (take n sched) (store, cs)"
  assumes start: "\<forall>c\<in>set cs. snd c = Waiting"
  shows
  "(\<forall>n. redemptions rid (snd (after n)) \<le> 1) \<and>
   (\<forall>m n t. m \<le> n \<and> redeemedAt_of (fst (after m)) rid = Some t \<longrightarrow>
              redeemedAt_of (fst (after n)) rid = Some t) \<and>
   (\<forall>n req1 req2 v1 v2.
      cs = [(VerifyCall req1, Waiting), (VerifyCall req2, Waiting)] \<and>
      VerifyRequest.receiptId req1 = rid \<and> VerifyRequest.receiptId req2 = rid \<and>
      redeem req1 \<and> redeem req2 \<longrightarrow>
      snd (after n) \<noteq> [(VerifyCall req1, Returned (Verified (Valid v1))),
                        (VerifyCall req2, Returned (Verified (Valid v2)))]) \<and>
   (\<forall>n. (\<forall>i<length cs. 2 \<le> moves i (take n sched)) \<longrightarrow>
      (\<forall>c\<in>set (snd (after n)). returned c)) \<and>
   (\<forall>n N r.
      0 < N \<and> cs = replicate N (RedeemCall rid, Waiting) \<and>
      store rid = Some r \<and> Receipt.redeemedAt r = None \<and>
      (\<forall>i<N. 1 \<le> moves i (take n sched)) \<longrightarrow>
      (\<forall>c\<in>set (snd (after n)). returned c) \<and>
      answered (Redeemed Ok) (snd (after n)) = 1 \<and>
      answered (Redeemed AlreadyRedeemed) (snd (after n)) = N - 1 \<and>
      redeemedAt_of (fst (after n)) rid \<noteq> None)"
proof (intro conjI allI impI)
  have init: "at_most_once rid (store, cs)"
    using start by (simp add: at_most_once_def redemptions_waiting)
  have once: "at_most_once rid (after n)" for n
    unfolding after_def using init by (rule at_most_once_exec)
  show one: "redemptions rid (snd (after n)) \<le> 1" for n
    using once [of n] by (simp add: at_most_once_def)
  { fix n req1 req2 v1 v2
    assume h: "cs = [(VerifyCall req1, Waiting), (VerifyCall req2, Waiting)] \<and>
      VerifyRequest.receiptId req1 = rid \<and> VerifyRequest.receiptId req2 = rid \<and>
      redeem req1 \<and> redeem req2"
    show "snd (after n) \<noteq> [(VerifyCall req1, Returned (Verified (Valid v1))),
                        (VerifyCall req2, Returned (Verified (Valid v2)))]"
    proof
      assume "snd (after n) = [(VerifyCall req1, Returned (Verified (Valid v1))),
                        (VerifyCall req2, Returned (Verified (Valid v2)))]"
      with h have "redemptions rid (snd (after n)) = 2"
        by (simp add: redemptions_def)
      with one [of n] show False by simp
    qed }
  { fix m n t
    assume h: "m \<le> n \<and> redeemedAt_of (fst (after m)) rid = Some t"
    then have "take n sched = take m sched @ drop m (take n sched)"
      by (simp add: take_split)
    then have "after n = exec mode ks sig_ok (drop m (take n sched)) (after m)"
      unfolding after_def by (metis exec_append)
    with h show "redeemedAt_of (fst (after n)) rid = Some t"
      by (simp add: exec_mono) }
  { fix n
    assume h: "\<forall>i<length cs. 2 \<le> moves i (take n sched)"
    have "\<forall>i<length cs. steps_left (cs ! i) \<le> moves i (take n sched)"
    proof (intro allI impI)
      fix i assume "i < length cs"
      with h have "2 \<le> moves i (take n sched)" by simp
      with steps_left_le_2 [of "cs ! i"] show "steps_left (cs ! i) \<le> moves i (take n sched)"
        by simp
    qed
    with start show "\<forall>c\<in>set (snd (after n)). returned c"
      unfolding after_def by (rule exec_all_returned) }
  { fix n N r
    assume h: "0 < N \<and> cs = replicate N (RedeemCall rid, Waiting) \<and>
      store rid = Some r \<and> Receipt.redeemedAt r = None \<and>
      (\<forall>i<N. 1 \<le> moves i (take n sched))"
    then have "\<forall>i<length cs. steps_left (cs ! i) \<le> moves i (take n sched)"
      by simp
    with start show fin: "\<forall>c\<in>set (snd (after n)). returned c"
      unfolding after_def by (rule exec_all_returned)
    from h have "redeem_race rid (store, cs)"
      by (simp add: redeem_race_def redeemedAt_of_def)
    then have "redeem_race rid (after n)"
      unfolding after_def by (rule redeem_race_exec)
    then have race: "redeem_race rid (fst (after n), snd (after n))" by simp
    have len: "length (snd (after n)) = N"
      using h by (simp add: after_def exec_length)
    with h have ne: "snd (after n) \<noteq> []" by auto
    from redeem_race_finished [OF race ne fin] len
    show "answered (Redeemed Ok) (snd (after n)) = 1"
      and "answered (Redeemed AlreadyRedeemed) (snd (after n)) = N - 1"
      and "redeemedAt_of (fst (after n)) rid \<noteq> None"
      by simp_all }
qed

lemma example_verify_race:
  "snd (exec required [example_key_1] example_sig_ok
          [(0, 2000), (1, 2000), (1, 2001), (0, 2002)]
          ([js ''rec_1'' \<mapsto> example_receipt],
           [(VerifyCall example_request, Waiting), (VerifyCall example_request, Waiting)])) =
     [(VerifyCall example_request, Returned (Verified (Invalid PP_REDEEMED))),
      (VerifyCall example_request,
       Returned (Verified (Valid (public_view (example_receipt\<lparr>redeemedAt := Some 2001\<rparr>)))))]"
  by code_simp

theorem redemption_at_most_once_witness:
  "1 \<le> moves 0 [(1, 2000), (0, 2001), (1, 2002), (2, 2003)] \<and>
   1 \<le> moves 1 [(1, 2000), (0, 2001), (1, 2002), (2, 2003)] \<and>
   1 \<le> moves 2 [(1, 2000), (0, 2001), (1, 2002), (2, 2003)] \<and>
   answered (Redeemed Ok)
     (snd (exec required [example_key_1] example_sig_ok
             [(1, 2000), (0, 2001), (1, 2002), (2, 2003)]
             ([js ''rec_1'' \<mapsto> example_receipt],
              replicate 3 (RedeemCall (js ''rec_1''), Waiting)))) = 1 \<and>
   answered (Redeemed AlreadyRedeemed)
     (snd (exec required [example_key_1] example_sig_ok
             [(1, 2000), (0, 2001), (1, 2002), (2, 2003)]
             ([js ''rec_1'' \<mapsto> example_receipt],
              replicate 3 (RedeemCall (js ''rec_1''), Waiting)))) = 2 \<and>
   redeemedAt_of
     (fst (exec required [example_key_1] example_sig_ok
             [(1, 2000), (0, 2001), (1, 2002), (2, 2003)]
             ([js ''rec_1'' \<mapsto> example_receipt],
              replicate 3 (RedeemCall (js ''rec_1''), Waiting)))) (js ''rec_1'') \<noteq> None \<and>
   redemptions (js ''rec_1'')
     (snd (exec required [example_key_1] example_sig_ok
             [(0, 2000), (1, 2000), (1, 2001), (0, 2002)]
             ([js ''rec_1'' \<mapsto> example_receipt],
              [(VerifyCall example_request, Waiting),
               (VerifyCall example_request, Waiting)]))) \<le> 1 \<and>
   snd (exec required [example_key_1] example_sig_ok
          [(0, 2000), (1, 2000), (1, 2001), (0, 2002)]
          ([js ''rec_1'' \<mapsto> example_receipt],
           [(VerifyCall example_request, Waiting), (VerifyCall example_request, Waiting)])) =
     [(VerifyCall example_request, Returned (Verified (Invalid PP_REDEEMED))),
      (VerifyCall example_request,
       Returned (Verified (Valid (public_view (example_receipt\<lparr>redeemedAt := Some 2001\<rparr>)))))]"
proof -
  let ?sched = "[(1, 2000), (0, 2001), (1, 2002), (2, 2003)] :: (nat \<times> timestamp) list"
  let ?store = "[js ''rec_1'' \<mapsto> example_receipt]"
  let ?cs = "replicate 3 (RedeemCall (js ''rec_1''), Waiting)"
  have start: "\<forall>c\<in>set ?cs. snd c = Waiting" by simp
  have t3: "take 4 ?sched = ?sched" by simp
  have mv: "1 \<le> moves 0 ?sched" "1 \<le> moves 1 ?sched" "1 \<le> moves 2 ?sched"
    by (simp_all add: moves_def)
  have each: "\<forall>i<3. 1 \<le> moves i (take 4 ?sched)"
  proof (intro allI impI)
    fix i :: nat assume "i < 3"
    then have "i = 0 \<or> i = 1 \<or> i = 2" by arith
    with mv show "1 \<le> moves i (take 4 ?sched)" unfolding t3 by blast
  qed
  have pre: "0 < (3::nat) \<and> ?cs = replicate 3 (RedeemCall (js ''rec_1''), Waiting) \<and>
             ?store (js ''rec_1'') = Some example_receipt \<and>
             Receipt.redeemedAt example_receipt = None \<and>
             (\<forall>i<3. 1 \<le> moves i (take 4 ?sched))"
    using each by (simp add: example_receipt_def)
  from redemption_at_most_once
         [where cs = ?cs and sched = ?sched and store = ?store and rid = "js ''rec_1''"
            and mode = required and ks = "[example_key_1]" and sig_ok = example_sig_ok,
          OF start, THEN conjunct2, THEN conjunct2, THEN conjunct2, THEN conjunct2,
          rule_format, OF pre]
  have a: "answered (Redeemed Ok)
             (snd (exec required [example_key_1] example_sig_ok ?sched (?store, ?cs))) = 1"
    and b: "answered (Redeemed AlreadyRedeemed)
             (snd (exec required [example_key_1] example_sig_ok ?sched (?store, ?cs))) = 2"
    and d: "redeemedAt_of
             (fst (exec required [example_key_1] example_sig_ok ?sched (?store, ?cs)))
             (js ''rec_1'') \<noteq> None"
    unfolding t3 by simp_all
  let ?sched2 = "[(0, 2000), (1, 2000), (1, 2001), (0, 2002)] :: (nat \<times> timestamp) list"
  let ?cs2 = "[(VerifyCall example_request, Waiting), (VerifyCall example_request, Waiting)]"
  have start2: "\<forall>c\<in>set ?cs2. snd c = Waiting" by simp
  have t4: "take 4 ?sched2 = ?sched2" by simp
  from redemption_at_most_once
         [where cs = ?cs2 and sched = ?sched2 and store = ?store and rid = "js ''rec_1''"
            and mode = required and ks = "[example_key_1]" and sig_ok = example_sig_ok,
          OF start2, THEN conjunct1, rule_format, of 4]
  have c: "redemptions (js ''rec_1'')
             (snd (exec required [example_key_1] example_sig_ok ?sched2 (?store, ?cs2))) \<le> 1"
    unfolding t4 .
  from mv a b c d example_verify_race show ?thesis by simp
qed

end
